theory Spec2Isabelle
  imports Complex_Main
begin

section \<open>Python and NumPy preliminaries\<close>

text \<open>
  The module \<^verbatim>\<open>vigranumpy/lib/arraytypes.py\<close> is written on top of
  \<^verbatim>\<open>numpy.ndarray\<close>. Of an array only the metadata matters here: its shape, its strides
  (in bytes, as NumPy reports them) and the size of one element. Python integers are
  unbounded, hence \<open>int\<close>.
\<close>

datatype error = IndexError | ValueError | RuntimeError | AttributeError

datatype order_token = OrderC | OrderF | OrderV | OrderA

record ndarray =
  shape :: "int list"
  strides :: "int list"
  itemsize :: int

text \<open>The first argument of the constructors: an existing array, or a sequence read as a shape.\<close>

datatype obj = Array ndarray | Sequence "int list"

text \<open>
  \<^verbatim>\<open>xs[i] = v\<close> on a Python list: a negative index counts from the end, an index out of
  range raises.
\<close>

definition py_setitem :: "'a list \<Rightarrow> int \<Rightarrow> 'a \<Rightarrow> error + 'a list" where
  "py_setitem xs i v =
     (let n = int (length xs); j = (if i < 0 then n + i else i)
      in if 0 \<le> j \<and> j < n then Inr (xs[nat j := v]) else Inl IndexError)"

text \<open>\<^verbatim>\<open>xs[i]\<close> on a Python list, for a non-negative position \<open>i\<close>.\<close>

definition py_getitem :: "'a list \<Rightarrow> nat \<Rightarrow> error + 'a" where
  "py_getitem xs i = (if i < length xs then Inr (xs ! i) else Inl IndexError)"

text \<open>
  \<^verbatim>\<open>numpy.array(xs).argsort()\<close>: the positions of \<open>xs\<close> in ascending order of the
  values (equal values are kept in their original order here).
\<close>

definition argsort :: "int list \<Rightarrow> int list" where
  "argsort xs = map (int \<circ> snd) (sort_key fst (zip xs [0..<length xs]))"

text \<open>
  A fresh Fortran-order allocation \<^verbatim>\<open>numpy.ndarray.__new__(cls, shape, dtype, order='F')\<close>:
  the first axis has the stride of one element, every further stride is the previous one
  times the previous extent (an extent of zero counts as one). A negative extent is
  rejected.
\<close>

fun fortran_strides :: "int \<Rightarrow> int list \<Rightarrow> int list" where
  "fortran_strides sd [] = []"
| "fortran_strides sd (d # ds) = sd # fortran_strides (sd * (if d = 0 then 1 else d)) ds"

definition ndarray_new_F :: "int list \<Rightarrow> int \<Rightarrow> error + ndarray" where
  "ndarray_new_F shp isz =
     (if list_ex (\<lambda>d. d < 0) shp then Inl ValueError
      else Inr \<lparr>shape = shp, strides = fortran_strides isz shp, itemsize = isz\<rparr>)"

text \<open>
  \<^verbatim>\<open>numpy.ndarray.transpose(axes)\<close>: \<open>axes\<close> must be a permutation of the axis
  numbers (negative numbers count from the end); axis \<open>k\<close> of the result is axis
  \<open>axes[k]\<close> of the array.
\<close>

definition normalize_axis :: "nat \<Rightarrow> int \<Rightarrow> int" where
  "normalize_axis n a = (if a < 0 then int n + a else a)"

definition ndarray_transpose :: "ndarray \<Rightarrow> int list \<Rightarrow> error + ndarray" where
  "ndarray_transpose a axes =
     (let n = length (shape a); ax = map (normalize_axis n) axes
      in if length axes = n \<and> list_all (\<lambda>k. 0 \<le> k \<and> k < int n) ax \<and> distinct ax
         then Inr (a\<lparr>shape := map (\<lambda>k. shape a ! nat k) ax,
                     strides := map (\<lambda>k. strides a ! nat k) ax\<rparr>)
         else Inl ValueError)"

text \<open>
  The flags \<^verbatim>\<open>c_contiguous\<close> and \<^verbatim>\<open>f_contiguous\<close>, as NumPy 1.x computes them
  (\<^verbatim>\<open>_IsContiguous\<close>, \<^verbatim>\<open>_IsFortranContiguous\<close>): an array without axes is contiguous; an
  array with one axis is contiguous when it has one element or its stride is the element
  size; otherwise the strides are compared with the running product of the extents,
  from the last axis (C) or from the first (Fortran), and an extent of zero ends the
  comparison with success.
\<close>

fun contiguous_from :: "int \<Rightarrow> (int \<times> int) list \<Rightarrow> bool" where
  "contiguous_from sd [] = True"
| "contiguous_from sd ((d, s) # rest) =
     (if d = 0 then True else if s \<noteq> sd then False else contiguous_from (sd * d) rest)"

definition f_contiguous :: "ndarray \<Rightarrow> bool" where
  "f_contiguous a =
     (case zip (shape a) (strides a) of
        [] \<Rightarrow> True
      | [(d, s)] \<Rightarrow> d = 1 \<or> s = itemsize a
      | ds \<Rightarrow> contiguous_from (itemsize a) ds)"

definition c_contiguous :: "ndarray \<Rightarrow> bool" where
  "c_contiguous a =
     (case zip (shape a) (strides a) of
        [] \<Rightarrow> True
      | [(d, s)] \<Rightarrow> d = 1 \<or> s = itemsize a
      | ds \<Rightarrow> contiguous_from (itemsize a) (rev ds))"

section \<open>The layout resolver: \<^verbatim>\<open>constructNumpyArray\<close>\<close>

text \<open>
  \<^verbatim>\<open>
  if isinstance(obj, numpy.ndarray):
      shape = list(obj.shape)
      strideOrdering = list(numpy.array(obj.strides).argsort().argsort())
  else:
      shape = list(obj)
      strideOrdering = None
  \<close>
\<close>

definition obj_shape :: "obj \<Rightarrow> int list" where
  "obj_shape ob = (case ob of Array a \<Rightarrow> shape a | Sequence s \<Rightarrow> s)"

definition obj_strideOrdering :: "obj \<Rightarrow> int list option" where
  "obj_strideOrdering ob =
     (case ob of Array a \<Rightarrow> Some (argsort (argsort (strides a))) | Sequence s \<Rightarrow> None)"

text \<open>
  \<^verbatim>\<open>
  if channels == 0: # if the requested number of channels is not given ...
      # ... deduce it
      if len(shape) == spatialDimensions:
          channels = 1
      else:
          channels = shape[-1]
  \<close>
  \<^verbatim>\<open>shape[-1]\<close> raises on an empty shape.
\<close>

definition deduce_channels :: "int list \<Rightarrow> nat \<Rightarrow> int \<Rightarrow> error + int" where
  "deduce_channels shp spatialDimensions channels =
     (if channels = 0 then
        (if length shp = spatialDimensions then Inr 1
         else if shp = [] then Inl IndexError
         else Inr (last shp))
      else Inr channels)"

text \<open>
  \<^verbatim>\<open>
  shapeSize = spatialDimensions if channels == 1 else spatialDimensions + 1
  shape.append(0)
  pshape = shape[:shapeSize]
  if shapeSize > spatialDimensions:
      pshape[-1] = channels
  \<close>
\<close>

definition shapeSize :: "nat \<Rightarrow> int \<Rightarrow> nat" where
  "shapeSize spatialDimensions channels =
     (if channels = 1 then spatialDimensions else spatialDimensions + 1)"

definition pshape :: "int list \<Rightarrow> nat \<Rightarrow> int \<Rightarrow> int list" where
  "pshape shp spatialDimensions channels =
     (let n = shapeSize spatialDimensions channels;
          p = take n (shp @ [0])
      in if n > spatialDimensions then p[length p - 1 := channels] else p)"

text \<open>
  \<^verbatim>\<open>
  if order == "A":
      if strideOrdering is None:
          order = "V"
      elif len(strideOrdering) > shapeSize:
          pstride = strideOrdering[:shapeSize]
          if strideOrdering[shapeSize] == 0:
              pstride = [k-1 for k in pstride]
          strideOrdering = pstride
      elif len(strideOrdering) < shapeSize:
          strideOrdering = [k+1 for k in strideOrdering]
          strideOrdering.append(0)
  \<close>
  The result is the pair of the (possibly replaced) order token and the (possibly
  adjusted) stride ordering.
\<close>

definition resolve_auto ::
  "order_token \<Rightarrow> int list option \<Rightarrow> nat \<Rightarrow> order_token \<times> int list option" where
  "resolve_auto order strideOrdering n =
     (if order = OrderA then
        (case strideOrdering of
           None \<Rightarrow> (OrderV, None)
         | Some so \<Rightarrow>
             if length so > n then
               (let pstride = take n so
                in (OrderA, Some (if so ! n = 0 then map (\<lambda>k. k - 1) pstride else pstride)))
             else if length so < n then (OrderA, Some (map (\<lambda>k. k + 1) so @ [0]))
             else (OrderA, Some so))
      else (order, strideOrdering))"

text \<open>
  \<^verbatim>\<open>
  if order == "C":
      strideOrdering = range(len(pshape)-1, -1, -1)
  elif order == "F" or (order == "V" and channels == 1):
      strideOrdering = range(len(pshape))
  elif order == "V":
      strideOrdering = range(1, len(pshape)+1)
      strideOrdering[-1] = 0
  \<close>
  With the token \<^verbatim>\<open>'V'\<close> and more than one channel, \<open>pshape\<close> has at least one entry, so
  the assignment to the last position cannot fail. After \<open>resolve_auto\<close> the token
  \<^verbatim>\<open>'A'\<close> always comes with a stride ordering.
\<close>

definition canonical_ordering ::
  "order_token \<Rightarrow> int list option \<Rightarrow> nat \<Rightarrow> int \<Rightarrow> int list" where
  "canonical_ordering order strideOrdering n channels =
     (if order = OrderC then rev (map int [0..<n])
      else if order = OrderF \<or> (order = OrderV \<and> channels = 1) then map int [0..<n]
      else if order = OrderV then (map int [1..<n + 1])[n - 1 := 0]
      else (case strideOrdering of Some so \<Rightarrow> so | None \<Rightarrow> []))"

text \<open>The stride ordering that \<^verbatim>\<open>constructNumpyArray\<close> finally allocates with.\<close>

definition strideOrdering_of :: "obj \<Rightarrow> nat \<Rightarrow> int \<Rightarrow> order_token \<Rightarrow> error + int list" where
  "strideOrdering_of ob spatialDimensions channels order =
     (case deduce_channels (obj_shape ob) spatialDimensions channels of
        Inl e \<Rightarrow> Inl e
      | Inr ch \<Rightarrow>
          (let n = shapeSize spatialDimensions ch;
               p = pshape (obj_shape ob) spatialDimensions ch;
               (order', so) = resolve_auto order (obj_strideOrdering ob) n
           in Inr (canonical_ordering order' so (length p) ch)))"

text \<open>
  \<^verbatim>\<open>
  ppshape = [0]*len(pshape)
  for k in xrange(len(pshape)):
      ppshape[strideOrdering[k]] = pshape[k]
  \<close>
\<close>

fun fill_ppshape :: "int list \<Rightarrow> int list \<Rightarrow> nat list \<Rightarrow> int list \<Rightarrow> error + int list" where
  "fill_ppshape so p [] ppshape = Inr ppshape"
| "fill_ppshape so p (k # ks) ppshape =
     (case py_getitem so k of
        Inl e \<Rightarrow> Inl e
      | Inr i \<Rightarrow>
          (case py_setitem ppshape i (p ! k) of
             Inl e \<Rightarrow> Inl e
           | Inr ppshape' \<Rightarrow> fill_ppshape so p ks ppshape'))"

text \<open>
  \<^verbatim>\<open>
  res = numpy.ndarray.__new__(cls, ppshape, dtype, order='F')
  res = res.transpose(strideOrdering)
  \<close>
  The element type enters through its size only. \<open>constructNumpyArray_alloc\<close> is the
  function up to this point: the array \<^verbatim>\<open>res\<close> before its contents are initialised.
\<close>

definition constructNumpyArray_alloc ::
  "obj \<Rightarrow> nat \<Rightarrow> int \<Rightarrow> int \<Rightarrow> order_token \<Rightarrow> error + ndarray" where
  "constructNumpyArray_alloc ob spatialDimensions channels isz order =
     (case deduce_channels (obj_shape ob) spatialDimensions channels of
        Inl e \<Rightarrow> Inl e
      | Inr ch \<Rightarrow>
          (let p = pshape (obj_shape ob) spatialDimensions ch in
           case strideOrdering_of ob spatialDimensions channels order of
             Inl e \<Rightarrow> Inl e
           | Inr so \<Rightarrow>
               (case fill_ppshape so p [0..<length p] (replicate (length p) 0) of
                  Inl e \<Rightarrow> Inl e
                | Inr ppshape \<Rightarrow>
                    (case ndarray_new_F ppshape isz of
                       Inl e \<Rightarrow> Inl e
                     | Inr res \<Rightarrow> ndarray_transpose res so))))"

text \<open>
  NumPy's assignment \<^verbatim>\<open>dest[...] = src\<close> between arrays broadcasts the source to the
  shape of the destination: the shapes are aligned at their last axes, every extent of
  the source is the extent of the destination or 1, and the source has no more axes
  than the destination; otherwise the assignment raises \<^verbatim>\<open>ValueError\<close>.
  \<open>broadcastable_rev\<close> takes the two shapes last axis first.
\<close>

fun broadcastable_rev :: "int list \<Rightarrow> int list \<Rightarrow> bool" where
  "broadcastable_rev [] ds = True"
| "broadcastable_rev (s # ss) [] = False"
| "broadcastable_rev (s # ss) (d # ds) = ((s = d \<or> s = 1) \<and> broadcastable_rev ss ds)"

definition numpy_assignable :: "int list \<Rightarrow> int list \<Rightarrow> bool" where
  "numpy_assignable src dest = broadcastable_rev (rev src) (rev dest)"

text \<open>
  \<^verbatim>\<open>
  if init:
      if isinstance(obj, numpy.ndarray):
          res[...] = obj
      else:
          res[...] = 0
  return res
  \<close>
  The assignment of an array raises when the shape of \<^verbatim>\<open>obj\<close> cannot be broadcast to
  the shape of \<^verbatim>\<open>res\<close>; the assignment of 0 never raises. Neither changes the shape or
  the strides of \<^verbatim>\<open>res\<close>.
\<close>

definition init_contents :: "obj \<Rightarrow> bool \<Rightarrow> ndarray \<Rightarrow> error + ndarray" where
  "init_contents ob init res =
     (if init then
        (case ob of
           Array a \<Rightarrow> if numpy_assignable (shape a) (shape res) then Inr res else Inl ValueError
         | Sequence s \<Rightarrow> Inr res)
      else Inr res)"

text \<open>
  \<^verbatim>\<open>def constructNumpyArray(cls, obj, spatialDimensions, channels, dtype, order, init)\<close>,
  the whole function.
\<close>

definition constructNumpyArray ::
  "obj \<Rightarrow> nat \<Rightarrow> int \<Rightarrow> int \<Rightarrow> order_token \<Rightarrow> bool \<Rightarrow> error + ndarray" where
  "constructNumpyArray ob spatialDimensions channels isz order init =
     (case constructNumpyArray_alloc ob spatialDimensions channels isz order of
        Inl e \<Rightarrow> Inl e
      | Inr res \<Rightarrow> init_contents ob init res)"

text \<open>
  \<^verbatim>\<open>
  def bands(self):
      if len(self.shape) == self.spatialDimensions:
          return 1
      else:
          return self.shape[-1]
  \<close>
  On an instance, \<^verbatim>\<open>channels\<close> is \<^verbatim>\<open>bands\<close>. It is read by \<^verbatim>\<open>order\<close> only for an
  array that is neither C- nor Fortran-contiguous, which has at least one axis.
\<close>

definition bands :: "nat \<Rightarrow> ndarray \<Rightarrow> int" where
  "bands spatialDimensions a =
     (if length (shape a) = spatialDimensions then 1 else last (shape a))"

text \<open>
  \<^verbatim>\<open>
  @property
  def order(self):
      if self.flags.c_contiguous:
          return 'C'
      elif self.flags.f_contiguous:
          return 'F'
      elif self.channels > 1 and self.itemsize == self.strides[-1] and \
           reduce(lambda x, y: y if y >= x and x >= 0 else -1, self.strides[:-1], 0) >= 0:
          return 'V'
      return 'A'
  \<close>
\<close>

definition order :: "nat \<Rightarrow> ndarray \<Rightarrow> order_token" where
  "order spatialDimensions a =
     (if c_contiguous a then OrderC
      else if f_contiguous a then OrderF
      else if bands spatialDimensions a > 1 \<and> itemsize a = last (strides a) \<and>
              foldl (\<lambda>x y. if y \<ge> x \<and> x \<ge> 0 then y else -1) 0 (butlast (strides a)) \<ge> 0
           then OrderV
      else OrderA)"


section \<open>The image pyramid\<close>

text \<open>
  A pyramid level is an array of one of the image classes. A class fixes the number of
  spatial dimensions and the class attribute \<^verbatim>\<open>channels\<close> (0 for \<^verbatim>\<open>Image\<close> and
  \<^verbatim>\<open>Volume\<close>, the channel count for \<^verbatim>\<open>ScalarImage\<close>, \<^verbatim>\<open>RGBImage\<close>, ...). The contents
  of an array are a value of type \<open>'d\<close>, with the elementwise arithmetic of NumPy as
  the arithmetic of \<open>'d\<close>; the axis tags play no role in the pyramid.
\<close>

record vigra_class =
  spatialDimensions :: nat
  channels :: int

record 'd image =
  array :: ndarray
  cls :: vigra_class
  data :: 'd

text \<open>
  \<^verbatim>\<open>image.__class__(newShape, dtype=image.dtype)\<close>: the constructor \<^verbatim>\<open>_VigraArray.__new__\<close>
  with its defaults \<^verbatim>\<open>order='V', init=True\<close>, that is \<^verbatim>\<open>constructNumpyArray\<close> on a
  shape, which ends with \<^verbatim>\<open>res[...] = 0\<close>.
\<close>

definition new_from_shape :: "vigra_class \<Rightarrow> int \<Rightarrow> int list \<Rightarrow> error + ('d::zero) image" where
  "new_from_shape c isz shp =
     (case constructNumpyArray (Sequence shp) (spatialDimensions c) (channels c) isz OrderV True of
        Inl e \<Rightarrow> Inl e
      | Inr a \<Rightarrow> Inr \<lparr>array = a, cls = c, data = 0\<rparr>)"

text \<open>
  \<^verbatim>\<open>dest[...] = src[...]\<close>: the contents of \<open>src\<close> are copied into an array of the shape
  \<open>shp\<close>. Only the assignment between equal shapes is modelled. Between other shapes
  NumPy either raises \<^verbatim>\<open>ValueError\<close> or, when the source can be broadcast (an extent of 1,
  or fewer axes), repeats the source along the broadcast axes, which the abstract contents
  \<open>'d\<close> cannot express: the model stops with \<^verbatim>\<open>ValueError\<close> in both cases, so that the
  contents it returns are always those of the source.
\<close>

definition assign_contents :: "int list \<Rightarrow> int list \<Rightarrow> 'd \<Rightarrow> error + 'd" where
  "assign_contents shp src_shape src_data =
     (if src_shape = shp then Inr src_data else Inl ValueError)"

text \<open>
  \<^verbatim>\<open>image.__class__(image, dtype=image.dtype)\<close>: a copy of \<open>image\<close> of the same class, by
  \<^verbatim>\<open>constructNumpyArray\<close> on the array with \<^verbatim>\<open>init=True\<close>, which ends with
  \<^verbatim>\<open>res[...] = obj\<close>; \<open>assign_contents\<close> gives the contents that this assignment leaves.
\<close>

definition new_from_image :: "'d image \<Rightarrow> error + 'd image" where
  "new_from_image img =
     (case constructNumpyArray (Array (array img)) (spatialDimensions (cls img))
             (channels (cls img)) (itemsize (array img)) OrderV True of
        Inl e \<Rightarrow> Inl e
      | Inr a \<Rightarrow>
          (case assign_contents (shape a) (shape (array img)) (data img) of
             Inl e \<Rightarrow> Inl e
           | Inr d \<Rightarrow> Inr \<lparr>array = a, cls = cls img, data = d\<rparr>))"

text \<open>
  \<^verbatim>\<open>class ImagePyramid(list)\<close>: the list of the levels, from the lowest to the highest,
  and the two bounds \<^verbatim>\<open>_lowestLevel\<close> and \<^verbatim>\<open>_highestLevel\<close>.
\<close>

record 'd pyramid =
  levels :: "'d image list"
  lowestLevel :: int
  highestLevel :: int

text \<open>
  A method either returns or raises; in both cases the pyramid may have been changed.
  Its result is the exception, if any, and the pyramid afterwards.
\<close>

type_synonym 'd outcome = "error option \<times> 'd pyramid"

text \<open>
  The loop of \<^verbatim>\<open>createLevel\<close> towards higher levels, one pass per remaining level:
  \<^verbatim>\<open>
  for i in range(self.highestLevel, level):
      image = list.__getitem__(self, -1)
      newShape = [int((k + 1) / 2) for k in image.shape]
      self.append(image.__class__(newShape, dtype=image.dtype))
  \<close>
  The division is Python 2's division of integers, which rounds down.
\<close>

fun grow_up :: "nat \<Rightarrow> ('d::zero) pyramid \<Rightarrow> 'd outcome" where
  "grow_up 0 p = (None, p)"
| "grow_up (Suc n) p =
     (if levels p = [] then (Some IndexError, p)
      else
        (let img = last (levels p);
             newShape = map (\<lambda>k. (k + 1) div 2) (shape (array img))
         in case new_from_shape (cls img) (itemsize (array img)) newShape of
              Inl e \<Rightarrow> (Some e, p)
            | Inr im \<Rightarrow> grow_up n (p\<lparr>levels := levels p @ [im]\<rparr>)))"

text \<open>
  The loop of \<^verbatim>\<open>createLevel\<close> towards lower levels; \<open>image\<close> is read once, before the
  loop:
  \<^verbatim>\<open>
  image = list.__getitem__(self, 0)
  for i in range(self.lowestLevel, level, -1):
      newShape = [2*k-1 for k in image.shape]
      self.insert(0, image.__class__(newShape, dtype=image.dtype))
  \<close>
\<close>

fun grow_down :: "nat \<Rightarrow> ('d::zero) image \<Rightarrow> 'd pyramid \<Rightarrow> 'd outcome" where
  "grow_down 0 img p = (None, p)"
| "grow_down (Suc n) img p =
     (let newShape = map (\<lambda>k. 2 * k - 1) (shape (array img))
      in case new_from_shape (cls img) (itemsize (array img)) newShape of
           Inl e \<Rightarrow> (Some e, p)
         | Inr im \<Rightarrow> grow_down n img (p\<lparr>levels := im # levels p\<rparr>))"

text \<open>
  \<^verbatim>\<open>
  def createLevel(self, level):
      if level > self.highestLevel:
          for ...
          self._highestLevel = level
      elif level < self.lowestLevel:
          image = list.__getitem__(self, 0)
          for ...
          self._lowestLevel = level
  \<close>
\<close>

definition createLevel :: "('d::zero) pyramid \<Rightarrow> int \<Rightarrow> 'd outcome" where
  "createLevel p level =
     (if level > highestLevel p then
        (case grow_up (nat (level - highestLevel p)) p of
           (Some e, p') \<Rightarrow> (Some e, p')
         | (None, p') \<Rightarrow> (None, p'\<lparr>highestLevel := level\<rparr>))
      else if level < lowestLevel p then
        (if levels p = [] then (Some IndexError, p)
         else
           (case grow_down (nat (lowestLevel p - level)) (hd (levels p)) p of
              (Some e, p') \<Rightarrow> (Some e, p')
            | (None, p') \<Rightarrow> (None, p'\<lparr>lowestLevel := level\<rparr>)))
      else (None, p))"

text \<open>
  \<^verbatim>\<open>
  def __init__(self, image, copyImagedestLevel = 0, lowestLevel = 0, highestLevel = 0):
      if lowestLevel > copyImagedestLevel or highestLevel < copyImagedestLevel:
          raise ValueError(...)
      list.__init__(self, [image.__class__(image, dtype=image.dtype)])
      self._lowestLevel = copyImagedestLevel
      self._highestLevel = copyImagedestLevel
      self.createLevel(lowestLevel)
      self.createLevel(highestLevel)
  \<close>
  A constructor that raises leaves no pyramid behind.
\<close>

definition ImagePyramid_init ::
  "('d::zero) image \<Rightarrow> int \<Rightarrow> int \<Rightarrow> int \<Rightarrow> error + 'd pyramid" where
  "ImagePyramid_init img copyImagedestLevel lowest highest =
     (if lowest > copyImagedestLevel \<or> highest < copyImagedestLevel then Inl ValueError
      else
        (case new_from_image img of
           Inl e \<Rightarrow> Inl e
         | Inr im \<Rightarrow>
             (case createLevel \<lparr>levels = [im], lowestLevel = copyImagedestLevel,
                                 highestLevel = copyImagedestLevel\<rparr> lowest of
                (Some e, p1) \<Rightarrow> Inl e
              | (None, p1) \<Rightarrow>
                  (case createLevel p1 highest of
                     (Some e, p2) \<Rightarrow> Inl e
                   | (None, p2) \<Rightarrow> Inr p2))))"

text \<open>
  \<^verbatim>\<open>
  def __getitem__(self, level):
      if level < self.lowestLevel or level > self.highestLevel:
          raise IndexError("ImagePyramid[level]: level out of range.")
      return list.__getitem__(self, level - self.lowestLevel)
  \<close>
\<close>

definition pyramid_getitem :: "'d pyramid \<Rightarrow> int \<Rightarrow> error + 'd image" where
  "pyramid_getitem p level =
     (if level < lowestLevel p \<or> level > highestLevel p then Inl IndexError
      else py_getitem (levels p) (nat (level - lowestLevel p)))"

text \<open>
  \<^verbatim>\<open>
  def __setitem__(self, level, image):
      self[level][...] = image[...]
  \<close>
  The array at \<open>level\<close> keeps its shape and receives the contents of \<open>image\<close>.
\<close>

definition pyramid_setitem :: "'d pyramid \<Rightarrow> int \<Rightarrow> int list \<Rightarrow> 'd \<Rightarrow> 'd outcome" where
  "pyramid_setitem p level src_shape src_data =
     (case pyramid_getitem p level of
        Inl e \<Rightarrow> (Some e, p)
      | Inr dest \<Rightarrow>
          (case assign_contents (shape (array dest)) src_shape src_data of
             Inl e \<Rightarrow> (Some e, p)
           | Inr d \<Rightarrow>
               (None, p\<lparr>levels := (levels p)[nat (level - lowestLevel p) := dest\<lparr>data := d\<rparr>]\<rparr>)))"

text \<open>
  The numeric collaborators. \<^verbatim>\<open>filters.convolve\<close> and the kernels belong to the native
  filter library; they enter as parameters, each acting on the contents of an array:
  \<^item> \<open>convolve c d\<close>: \<^verbatim>\<open>filters.convolve(a, filters.burtFilterKernel(0.25 - 0.5*c))\<close>, a new
    array of the shape of \<open>a\<close>;
  \<^item> \<open>subsample d\<close>: the contents of the view \<^verbatim>\<open>i[::2,::2]\<close>;
  \<^item> \<open>expandImpl c s d\<close>: the contents of \<open>dest\<close> after \<^verbatim>\<open>self.expandImpl(src, dest, c)\<close>,
    whose four \<^verbatim>\<open>filters.convolve\<close> calls write into the four sublattices of \<open>dest\<close>.
\<close>

record ('c, 'd) numerics =
  convolve :: "'c \<Rightarrow> 'd \<Rightarrow> 'd"
  subsample :: "'d \<Rightarrow> 'd"
  expandImpl :: "'c \<Rightarrow> 'd \<Rightarrow> 'd \<Rightarrow> 'd"

text \<open>
  The shape of \<^verbatim>\<open>i[::2,::2]\<close>: every second index along the first two axes, which an
  array with fewer than two axes does not have.
\<close>

definition subsampled_shape :: "int list \<Rightarrow> error + int list" where
  "subsampled_shape shp =
     (case shp of
        a # b # rest \<Rightarrow> Inr ((a + 1) div 2 # (b + 1) div 2 # rest)
      | _ \<Rightarrow> Inl IndexError)"

text \<open>
  The body of the loop of \<^verbatim>\<open>reduce\<close>, for one \<open>k\<close>:
  \<^verbatim>\<open>
  i = filters.convolve(self[k], smooth)
  self[k+1] = i[::2,::2]
  \<close>
\<close>

definition reduce_step :: "('c, 'd) numerics \<Rightarrow> 'c \<Rightarrow> 'd pyramid \<Rightarrow> int \<Rightarrow> 'd outcome" where
  "reduce_step nm centerValue p k =
     (case pyramid_getitem p k of
        Inl e \<Rightarrow> (Some e, p)
      | Inr src \<Rightarrow>
          (let i = convolve nm centerValue (data src) in
           case subsampled_shape (shape (array src)) of
             Inl e \<Rightarrow> (Some e, p)
           | Inr shp \<Rightarrow> pyramid_setitem p (k + 1) shp (subsample nm i)))"

text \<open>A \<^verbatim>\<open>for\<close> loop over levels: the body runs for each level in turn and stops at the first exception.\<close>

fun for_levels :: "('d pyramid \<Rightarrow> int \<Rightarrow> 'd outcome) \<Rightarrow> int list \<Rightarrow> 'd pyramid \<Rightarrow> 'd outcome" where
  "for_levels body [] p = (None, p)"
| "for_levels body (k # ks) p =
     (case body p k of
        (Some e, p') \<Rightarrow> (Some e, p')
      | (None, p') \<Rightarrow> for_levels body ks p')"

text \<open>
  \<^verbatim>\<open>
  def reduce(self, srcLevel, destLevel, centerValue = 0.42):
      if srcLevel > destLevel:
          raise RuntimeError("ImagePyramid::reduce(): srcLevel <= destLevel required.")
      if srcLevel < self.lowestLevel or srcLevel > self.highestLevel:
          raise RuntimeError("ImagePyramid::reduce(): srcLevel does not exist.")
      self.createLevel(destLevel)
      smooth = filters.burtFilterKernel(0.25 - 0.5*centerValue)
      for k in range(srcLevel, destLevel):
          ...
  \<close>
\<close>

definition reduce :: "('c, 'd::zero) numerics \<Rightarrow> 'd pyramid \<Rightarrow> int \<Rightarrow> int \<Rightarrow> 'c \<Rightarrow> 'd outcome" where
  "reduce nm p srcLevel destLevel centerValue =
     (if srcLevel > destLevel then (Some RuntimeError, p)
      else if srcLevel < lowestLevel p \<or> srcLevel > highestLevel p then (Some RuntimeError, p)
      else
        (case createLevel p destLevel of
           (Some e, p') \<Rightarrow> (Some e, p')
         | (None, p') \<Rightarrow>
             for_levels (reduce_step nm centerValue) [srcLevel..destLevel - 1] p'))"

text \<open>
  The body of the loop of \<^verbatim>\<open>reduceLaplacian\<close>, for one \<open>k\<close>:
  \<^verbatim>\<open>
  i = filters.convolve(self[k], smooth)
  self[k+1] = i[::2,::2]
  self.expandImpl(self[k+1], i, centerValue)
  self[k] = i - self[k]
  \<close>
  \<^verbatim>\<open>expandImpl\<close> overwrites the temporary \<open>i\<close>, which has the shape of level \<open>k\<close>.
\<close>

definition reduceLaplacian_step ::
  "('c, 'd::minus) numerics \<Rightarrow> 'c \<Rightarrow> 'd pyramid \<Rightarrow> int \<Rightarrow> 'd outcome" where
  "reduceLaplacian_step nm centerValue p k =
     (case pyramid_getitem p k of
        Inl e \<Rightarrow> (Some e, p)
      | Inr src \<Rightarrow>
          (let i = convolve nm centerValue (data src) in
           case subsampled_shape (shape (array src)) of
             Inl e \<Rightarrow> (Some e, p)
           | Inr shp \<Rightarrow>
               (case pyramid_setitem p (k + 1) shp (subsample nm i) of
                  (Some e, p1) \<Rightarrow> (Some e, p1)
                | (None, p1) \<Rightarrow>
                    (case pyramid_getitem p1 (k + 1) of
                       Inl e \<Rightarrow> (Some e, p1)
                     | Inr coarse \<Rightarrow>
                         (let i' = expandImpl nm centerValue (data coarse) i in
                          case pyramid_getitem p1 k of
                            Inl e \<Rightarrow> (Some e, p1)
                          | Inr cur \<Rightarrow>
                              pyramid_setitem p1 k (shape (array src)) (i' - data cur))))))"

text \<open>
  \<^verbatim>\<open>
  def reduceLaplacian(self, srcLevel, destLevel, centerValue = 0.42):
      if srcLevel > destLevel:
          raise RuntimeError(...)
      if srcLevel < self.lowestLevel or srcLevel > self.highestLevel:
          raise RuntimeError(...)
      self.createLevel(destLevel)
      smooth = filters.burtFilterKernel(0.25 - 0.5*centerValue)
      for k in range(srcLevel, destLevel):
          ...
  \<close>
\<close>

definition reduceLaplacian ::
  "('c, 'd::{zero,minus}) numerics \<Rightarrow> 'd pyramid \<Rightarrow> int \<Rightarrow> int \<Rightarrow> 'c \<Rightarrow> 'd outcome" where
  "reduceLaplacian nm p srcLevel destLevel centerValue =
     (if srcLevel > destLevel then (Some RuntimeError, p)
      else if srcLevel < lowestLevel p \<or> srcLevel > highestLevel p then (Some RuntimeError, p)
      else
        (case createLevel p destLevel of
           (Some e, p') \<Rightarrow> (Some e, p')
         | (None, p') \<Rightarrow>
             for_levels (reduceLaplacian_step nm centerValue) [srcLevel..destLevel - 1] p'))"

text \<open>
  The body of the loop of \<^verbatim>\<open>expandLaplacian\<close>, for one \<open>k\<close>:
  \<^verbatim>\<open>
  i = self[k-1].__class__(self[k-1].shape, dtype = self[k-1].dtype)
  self.expandImpl(self[k], i, centerValue)
  self[k-1] = i - self[k-1]
  \<close>
\<close>

definition expandLaplacian_step ::
  "('c, 'd::{zero,minus}) numerics \<Rightarrow> 'c \<Rightarrow> 'd pyramid \<Rightarrow> int \<Rightarrow> 'd outcome" where
  "expandLaplacian_step nm centerValue p k =
     (case pyramid_getitem p (k - 1) of
        Inl e \<Rightarrow> (Some e, p)
      | Inr fine \<Rightarrow>
          (case new_from_shape (cls fine) (itemsize (array fine)) (shape (array fine)) of
             Inl e \<Rightarrow> (Some e, p)
           | Inr i \<Rightarrow>
               (case pyramid_getitem p k of
                  Inl e \<Rightarrow> (Some e, p)
                | Inr coarse \<Rightarrow>
                    (let i' = expandImpl nm centerValue (data coarse) (data i)
                     in pyramid_setitem p (k - 1) (shape (array i)) (i' - data fine)))))"

text \<open>
  \<^verbatim>\<open>
  def expandLaplacian(self, srcLevel, destLevel, centerValue = 0.42):
      if srcLevel < destLevel:
          raise RuntimeError(...)
      if srcLevel < self.lowestLevel or srcLevel > self.highestLevel:
          raise RuntimeError(...)
      self.createLevel(destLevel)
      for k in range(srcLevel, destLevel, -1):
          ...
  \<close>
\<close>

definition expandLaplacian ::
  "('c, 'd::{zero,minus}) numerics \<Rightarrow> 'd pyramid \<Rightarrow> int \<Rightarrow> int \<Rightarrow> 'c \<Rightarrow> 'd outcome" where
  "expandLaplacian nm p srcLevel destLevel centerValue =
     (if srcLevel < destLevel then (Some RuntimeError, p)
      else if srcLevel < lowestLevel p \<or> srcLevel > highestLevel p then (Some RuntimeError, p)
      else
        (case createLevel p destLevel of
           (Some e, p') \<Rightarrow> (Some e, p')
         | (None, p') \<Rightarrow>
             for_levels (expandLaplacian_step nm centerValue) (rev [destLevel + 1..srcLevel]) p'))"


section \<open>The shape law of the pyramid\<close>

text \<open>The rounded-up half \<open>ceil(n / 2)\<close> of an extent.\<close>

definition ceil_half :: "int \<Rightarrow> int" where
  "ceil_half n = - ((- n) div 2)"

text \<open>
  The two relations between the shapes of a level (\<open>lower\<close>) and of the next coarser
  level (\<open>upper\<close>) of images with \<open>sd\<close> spatial axes: along the spatial axes the upper
  shape is the rounded-up half of the lower one, respectively the lower shape is twice
  the upper one minus one; the remaining (channel) axes keep their extent.
\<close>

definition halved :: "nat \<Rightarrow> int list \<Rightarrow> int list \<Rightarrow> bool" where
  "halved sd lower upper =
     (take sd upper = map ceil_half (take sd lower) \<and> drop sd upper = drop sd lower)"

definition doubled :: "nat \<Rightarrow> int list \<Rightarrow> int list \<Rightarrow> bool" where
  "doubled sd lower upper =
     (take sd lower = map (\<lambda>n. 2 * n - 1) (take sd upper) \<and> drop sd lower = drop sd upper)"

text \<open>
  The shapes an image class gives its arrays: without a channel axis for a single
  channel (classes with the channel count 1, or with the inferred channel count 0), with
  a trailing channel axis of the class's extent for a class with a fixed count of at
  least 2.
\<close>

definition normal_shape :: "vigra_class \<Rightarrow> int list \<Rightarrow> bool" where
  "normal_shape c shp =
     (((channels c = 0 \<or> channels c = 1) \<and> length shp = spatialDimensions c) \<or>
      (2 \<le> channels c \<and> length shp = spatialDimensions c + 1 \<and> last shp = channels c))"

definition level_ok :: "vigra_class \<Rightarrow> 'd image \<Rightarrow> bool" where
  "level_ok c img = (cls img = c \<and> normal_shape c (shape (array img)))"

text \<open>
  The invariant of a pyramid of images of the class \<open>c\<close>: there is one level for each
  integer from \<open>lowestLevel\<close> to \<open>highestLevel\<close>, every level is an array of the class,
  and the shapes of adjacent levels are related by \<open>halved\<close>.
\<close>

definition pyramid_inv :: "vigra_class \<Rightarrow> 'd pyramid \<Rightarrow> bool" where
  "pyramid_inv c p =
     (levels p \<noteq> [] \<and>
      int (length (levels p)) = highestLevel p - lowestLevel p + 1 \<and>
      list_all (level_ok c) (levels p) \<and>
      successively (halved (spatialDimensions c)) (map (\<lambda>img. shape (array img)) (levels p)))"


section \<open>The contents of the levels\<close>

text \<open>The contents of the array at \<open>level\<close>.\<close>

definition level_data :: "'d pyramid \<Rightarrow> int \<Rightarrow> 'd" where
  "level_data p level = data (levels p ! nat (level - lowestLevel p))"

text \<open>
  The contents \<open>d\<close> after \<open>n\<close> reductions: each one smooths with the Burt kernel and keeps
  every second element.
\<close>

fun reduced :: "('c, 'd) numerics \<Rightarrow> 'c \<Rightarrow> 'd \<Rightarrow> nat \<Rightarrow> 'd" where
  "reduced nm centerValue d 0 = d"
| "reduced nm centerValue d (Suc n) =
     subsample nm (convolve nm centerValue (reduced nm centerValue d n))"


section \<open>Axis tags\<close>

text \<open>
  Modelled from the spec: the classes \<^verbatim>\<open>AxisInfo\<close> and \<^verbatim>\<open>AxisTags\<close> belong to the native
  module \<^verbatim>\<open>vigranumpycore\<close>, which is not part of the Python sources. An \<^verbatim>\<open>AxisInfo\<close> is
  represented by its kind (x, y, z, channel, time, frequency, angle, unknown); the
  optional resolution plays no role here. An \<^verbatim>\<open>AxisTags\<close> object is the ordered sequence
  of the \<^verbatim>\<open>AxisInfo\<close> of the axes.
\<close>

datatype AxisInfo =
  AxisX | AxisY | AxisZ | AxisChannel | AxisTime | AxisFrequency | AxisAngle | AxisUnknown

type_synonym AxisTags = "AxisInfo list"

text \<open>
  Modelled from the spec: \<^verbatim>\<open>AxisTags(n)\<close> of the native module constructs "N unknown
  axes".
\<close>

definition unknown_tags :: "nat \<Rightarrow> AxisTags" where
  "unknown_tags n = replicate n AxisUnknown"

text \<open>A position given as a Python index: a negative one counts from the end.\<close>

definition py_index :: "nat \<Rightarrow> int \<Rightarrow> error + nat" where
  "py_index n k =
     (let j = (if k < 0 then int n + k else k)
      in if 0 \<le> j \<and> j < int n then Inr (nat j) else Inl IndexError)"

text \<open>
  Modelled from the spec: \<^verbatim>\<open>del axistags[k]\<close> of \<^verbatim>\<open>AxisTags\<close> (native module)
  deletes the tag at a position.
\<close>

definition tags_delitem :: "AxisTags \<Rightarrow> int \<Rightarrow> error + AxisTags" where
  "tags_delitem tags k =
     (case py_index (length tags) k of
        Inl e \<Rightarrow> Inl e
      | Inr j \<Rightarrow> Inr (take j tags @ drop (Suc j) tags))"

text \<open>
  Modelled from the spec: \<^verbatim>\<open>axistags[k]\<close> of \<^verbatim>\<open>AxisTags\<close> (native module) reads the
  tag at a position.
\<close>

definition tags_getitem :: "AxisTags \<Rightarrow> int \<Rightarrow> error + AxisInfo" where
  "tags_getitem tags k =
     (case py_index (length tags) k of Inl e \<Rightarrow> Inl e | Inr j \<Rightarrow> Inr (tags ! j))"

text \<open>
  Modelled from the spec: \<^verbatim>\<open>axistags[k] = v\<close> of \<^verbatim>\<open>AxisTags\<close> (native module) replaces
  the tag at a position.
\<close>

definition tags_setitem :: "AxisTags \<Rightarrow> int \<Rightarrow> AxisInfo \<Rightarrow> error + AxisTags" where
  "tags_setitem tags k v =
     (case py_index (length tags) k of Inl e \<Rightarrow> Inl e | Inr j \<Rightarrow> Inr (tags[j := v]))"

text \<open>
  Modelled from the spec: \<^verbatim>\<open>axistags.transpose(axes)\<close> of \<^verbatim>\<open>AxisTags\<close> (native module)
  permutes the tags by the permutation applied to the axes: position \<open>k\<close> of the result
  holds the tag of axis \<open>axes[k]\<close>.
\<close>

fun tags_permute :: "AxisTags \<Rightarrow> int list \<Rightarrow> error + AxisTags" where
  "tags_permute tags [] = Inr []"
| "tags_permute tags (k # ks) =
     (case tags_getitem tags k of
        Inl e \<Rightarrow> Inl e
      | Inr t \<Rightarrow> (case tags_permute tags ks of Inl e \<Rightarrow> Inl e | Inr ts \<Rightarrow> Inr (t # ts)))"

text \<open>
  Modelled from the spec: \<^verbatim>\<open>axistags.transpose()\<close> of \<^verbatim>\<open>AxisTags\<close> (native module),
  without an argument, reverses the order of the tags; with an argument it permutes them.
\<close>

definition tags_transpose :: "AxisTags \<Rightarrow> int list option \<Rightarrow> error + AxisTags" where
  "tags_transpose tags axes =
     (case axes of None \<Rightarrow> Inr (rev tags) | Some ax \<Rightarrow> tags_permute tags ax)"

text \<open>
  An index expression of basic indexing is a tuple of integers, slices
  \<^verbatim>\<open>start:stop:step\<close>, \<^verbatim>\<open>newaxis\<close> and \<^verbatim>\<open>...\<close>. An index expression that contains an
  integer or boolean array selects by advanced ("fancy") indexing; of such an expression
  only the shape of the array that NumPy returns for it is kept.
\<close>

datatype index_item =
  IInt int | ISlice "int option" "int option" "int option" | INewAxis | IEllipsis

datatype index = Basic "index_item list" | Fancy "int list"

text \<open>The number of axes of the indexed array that the items other than the first \<^verbatim>\<open>...\<close> consume.\<close>

fun consumes :: "index_item \<Rightarrow> nat" where
  "consumes (IInt i) = 1"
| "consumes (ISlice a b c) = 1"
| "consumes INewAxis = 0"
| "consumes IEllipsis = 1"

definition ellipsis_length :: "nat \<Rightarrow> index_item list \<Rightarrow> int" where
  "ellipsis_length n items =
     int n - int (sum_list (map consumes items)) + (if IEllipsis \<in> set items then 1 else 0)"

text \<open>
  Modelled from the spec: the walk of \<^verbatim>\<open>axistags.transform(index, ndim)\<close> of \<^verbatim>\<open>AxisTags\<close>
  (native module) along a basic index, giving the tags of a view. Each surviving axis keeps its tag (an axis indexed by a slice, covered
  by \<^verbatim>\<open>...\<close>, or not indexed at all), each axis introduced by \<^verbatim>\<open>newaxis\<close> gets the tag
  "unknown", and the tag of an axis consumed by an integer is dropped. The first \<^verbatim>\<open>...\<close>
  covers \<open>e\<close> axes, a later one a single axis.
\<close>

fun transform_items :: "AxisTags \<Rightarrow> index_item list \<Rightarrow> nat \<Rightarrow> AxisTags" where
  "transform_items tags [] e = tags"
| "transform_items tags (IInt i # items) e = transform_items (drop 1 tags) items e"
| "transform_items tags (ISlice a b c # items) e =
     take 1 tags @ transform_items (drop 1 tags) items e"
| "transform_items tags (INewAxis # items) e = AxisUnknown # transform_items tags items e"
| "transform_items tags (IEllipsis # items) e =
     take e tags @ transform_items (drop e tags) items 1"

text \<open>
  Modelled from the spec: \<^verbatim>\<open>axistags.transform(index, ndim)\<close> of \<^verbatim>\<open>AxisTags\<close> (native
  module). The method is applied to views only, which basic indexing returns; the spec
  gives the result of advanced indexing \<open>ndim\<close> unknown tags.
\<close>

definition tags_transform :: "AxisTags \<Rightarrow> index \<Rightarrow> nat \<Rightarrow> AxisTags" where
  "tags_transform tags idx ndim =
     (case idx of
        Basic items \<Rightarrow> transform_items tags items (nat (ellipsis_length (length tags) items))
      | Fancy shp \<Rightarrow> unknown_tags ndim)"

section \<open>The tagged array\<close>

text \<open>
  Of a \<^verbatim>\<open>_VigraArray\<close> the shape and the attribute \<^verbatim>\<open>axistags\<close> are kept; the attribute
  may be missing (\<^verbatim>\<open>hasattr(a, 'axistags')\<close> is false for an array viewed from a plain
  \<^verbatim>\<open>ndarray\<close>).
\<close>

record VigraArray =
  vshape :: "int list"
  axistags :: "AxisTags option"

text \<open>
  An array that a method of \<^verbatim>\<open>numpy.ndarray\<close> returns for a \<^verbatim>\<open>_VigraArray\<close> is again of
  the class, and
  \<^verbatim>\<open>
  def __array_finalize__(self, obj):
      if hasattr(obj, 'axistags'):
          self.axistags = obj.axistags
  \<close>
  gives it the tags of the array it was made from.
\<close>

definition finalize :: "VigraArray \<Rightarrow> int list \<Rightarrow> VigraArray" where
  "finalize obj shp = \<lparr>vshape = shp, axistags = axistags obj\<rparr>"

text \<open>What a method returns: a plain value without tags, or an array.\<close>

datatype result = Value | ArrayResult VigraArray

text \<open>
  \<^verbatim>\<open>res.axistags = AxisTags(res.axistags); del res.axistags[axis]\<close>, the common end of the
  reductions along an axis. Reading a missing attribute raises.
\<close>

definition drop_axis_tag :: "VigraArray \<Rightarrow> int \<Rightarrow> error + VigraArray" where
  "drop_axis_tag res axis =
     (case axistags res of
        None \<Rightarrow> Inl AttributeError
      | Some tags \<Rightarrow>
          (case tags_delitem tags axis of
             Inl e \<Rightarrow> Inl e
           | Inr tags' \<Rightarrow> Inr (res\<lparr>axistags := Some tags'\<rparr>)))"

text \<open>
  The shape NumPy gives the result of a reduction: without an axis the reduction runs over
  all axes and the result has no axis; with an axis (negative axes count from the end)
  that axis is removed.
\<close>

definition numpy_reduce_shape :: "int list \<Rightarrow> int option \<Rightarrow> error + int list" where
  "numpy_reduce_shape shp axis =
     (case axis of
        None \<Rightarrow> Inr []
      | Some k \<Rightarrow>
          (let j = normalize_axis (length shp) k
           in if 0 \<le> j \<and> j < int (length shp)
              then Inr (take (nat j) shp @ drop (Suc (nat j)) shp)
              else Inl ValueError))"

text \<open>
  The methods \<^verbatim>\<open>all\<close>, \<^verbatim>\<open>any\<close>, \<^verbatim>\<open>argmax\<close>, \<^verbatim>\<open>argmin\<close>, \<^verbatim>\<open>max\<close>, \<^verbatim>\<open>mean\<close>,
  \<^verbatim>\<open>min\<close>, \<^verbatim>\<open>prod\<close>, \<^verbatim>\<open>ptp\<close> and \<^verbatim>\<open>sum\<close> have one body, here for \<^verbatim>\<open>sum\<close>:
  \<^verbatim>\<open>
  def sum(self, axis=None, dtype=None, out=None):
      res = numpy.ndarray.sum(self, axis, dtype, out)
      if axis is not None:
          res.axistags = AxisTags(res.axistags)
          del res.axistags[axis]
      return res
  \<close>
\<close>

definition reduction :: "VigraArray \<Rightarrow> int option \<Rightarrow> error + VigraArray" where
  "reduction self axis =
     (case numpy_reduce_shape (vshape self) axis of
        Inl e \<Rightarrow> Inl e
      | Inr shp \<Rightarrow>
          (let res = finalize self shp
           in case axis of None \<Rightarrow> Inr res | Some k \<Rightarrow> drop_axis_tag res k))"

text \<open>
  \<^verbatim>\<open>std\<close> and \<^verbatim>\<open>var\<close> end with
  \<^verbatim>\<open>
  if len(res.shape) == 0:
      res = res.item()
  return res
  \<close>
\<close>

definition reduction_item :: "VigraArray \<Rightarrow> int option \<Rightarrow> error + result" where
  "reduction_item self axis =
     (case reduction self axis of
        Inl e \<Rightarrow> Inl e
      | Inr res \<Rightarrow> if length (vshape res) = 0 then Inr Value else Inr (ArrayResult res))"

text \<open>
  \<^verbatim>\<open>
  def squeeze(self):
      res = numpy.ndarray.squeeze(self)
      if self.ndim != res.ndim:
          res.axistags = AxisTags(res.axistags)
          for k in xrange(self.ndim-1, -1, -1):
              if self.shape[k] == 1:
                  del res.axistags[k]
      return res
  \<close>
  NumPy's \<^verbatim>\<open>squeeze\<close> removes the axes of extent 1.
\<close>

fun squeeze_tags :: "int list \<Rightarrow> nat list \<Rightarrow> AxisTags \<Rightarrow> error + AxisTags" where
  "squeeze_tags shp [] tags = Inr tags"
| "squeeze_tags shp (k # ks) tags =
     (if shp ! k = 1 then
        (case tags_delitem tags (int k) of
           Inl e \<Rightarrow> Inl e
         | Inr tags' \<Rightarrow> squeeze_tags shp ks tags')
      else squeeze_tags shp ks tags)"

definition squeeze :: "VigraArray \<Rightarrow> error + VigraArray" where
  "squeeze self =
     (let res = finalize self (filter (\<lambda>d. d \<noteq> 1) (vshape self))
      in if length (vshape self) \<noteq> length (vshape res) then
           (case axistags res of
              None \<Rightarrow> Inl AttributeError
            | Some tags \<Rightarrow>
                (case squeeze_tags (vshape self) (rev [0..<length (vshape self)]) tags of
                   Inl e \<Rightarrow> Inl e
                 | Inr tags' \<Rightarrow> Inr (res\<lparr>axistags := Some tags'\<rparr>)))
         else Inr res)"

text \<open>
  The shape NumPy gives the result of \<^verbatim>\<open>reshape\<close>: the requested shape, in which one
  extent may be \<open>-1\<close> and is then inferred; the number of elements must not change.
\<close>

definition numpy_reshape_shape :: "int list \<Rightarrow> int list \<Rightarrow> error + int list" where
  "numpy_reshape_shape shp new =
     (let known = filter (\<lambda>d. d \<noteq> - 1) new in
      if list_ex (\<lambda>d. d < 0) known \<or> length known + 1 < length new then Inl ValueError
      else if length known = length new then
        (if prod_list new = prod_list shp then Inr new else Inl ValueError)
      else if prod_list known \<noteq> 0 \<and> prod_list shp mod prod_list known = 0 then
        Inr (map (\<lambda>d. if d = - 1 then prod_list shp div prod_list known else d) new)
      else Inl ValueError)"

text \<open>
  \<^verbatim>\<open>
  def reshape(self, shape, order='C'):
      res = numpy.ndarray.reshape(self, shape, order)
      res.axistags = AxisTags(res.ndim)
      return res
  \<close>
\<close>

definition reshape :: "VigraArray \<Rightarrow> int list \<Rightarrow> error + VigraArray" where
  "reshape self new =
     (case numpy_reshape_shape (vshape self) new of
        Inl e \<Rightarrow> Inl e
      | Inr shp \<Rightarrow> Inr ((finalize self shp)\<lparr>axistags := Some (unknown_tags (length shp))\<rparr>))"

text \<open>
  \<^verbatim>\<open>
  def ravel(self, order='C'):
      res = numpy.ndarray.ravel(self, order)
      res.axistags = AxisTags(1)
      return res
  \<close>
  The result has one axis with all the elements.
\<close>

definition ravel :: "VigraArray \<Rightarrow> VigraArray" where
  "ravel self = (finalize self [prod_list (vshape self)])\<lparr>axistags := Some (unknown_tags 1)\<rparr>"

text \<open>
  The shape NumPy gives the result of \<^verbatim>\<open>swapaxes(i, j)\<close>; an axis out of range is
  rejected.
\<close>

definition numpy_swapaxes_shape :: "int list \<Rightarrow> int \<Rightarrow> int \<Rightarrow> error + int list" where
  "numpy_swapaxes_shape shp i j =
     (let n = length shp; a = normalize_axis n i; b = normalize_axis n j
      in if 0 \<le> a \<and> a < int n \<and> 0 \<le> b \<and> b < int n
         then Inr (shp[nat a := shp ! nat b, nat b := shp ! nat a])
         else Inl ValueError)"

text \<open>
  \<^verbatim>\<open>
  def swapaxes(self, i, j):
      res = numpy.ndarray.swapaxes(self, i, j)
      if not hasattr(res, 'axistags'):
          return res
      res.axistags = AxisTags(res.axistags)
      res.axistags[i], res.axistags[j] = res.axistags[j], res.axistags[i]
      return res
  \<close>
  The right-hand side is evaluated first, then the two tags are stored in turn.
\<close>

definition swapaxes :: "VigraArray \<Rightarrow> int \<Rightarrow> int \<Rightarrow> error + VigraArray" where
  "swapaxes self i j =
     (case numpy_swapaxes_shape (vshape self) i j of
        Inl e \<Rightarrow> Inl e
      | Inr shp \<Rightarrow>
          (let res = finalize self shp
           in case axistags res of
                None \<Rightarrow> Inr res
              | Some tags \<Rightarrow>
                  (case tags_getitem tags j of
                     Inl e \<Rightarrow> Inl e
                   | Inr tj \<Rightarrow>
                       (case tags_getitem tags i of
                          Inl e \<Rightarrow> Inl e
                        | Inr ti \<Rightarrow>
                            (case tags_setitem tags i tj of
                               Inl e \<Rightarrow> Inl e
                             | Inr tags1 \<Rightarrow>
                                 (case tags_setitem tags1 j ti of
                                    Inl e \<Rightarrow> Inl e
                                  | Inr tags2 \<Rightarrow> Inr (res\<lparr>axistags := Some tags2\<rparr>)))))))"

text \<open>
  \<^verbatim>\<open>
  def flatten(self, order='C'):
      res = numpy.ndarray.flatten(self.swapaxes(0, self.spatialDimensions-1), order)
      res.axistags = AxisTags(1)
      return res
  \<close>
\<close>

definition flatten :: "nat \<Rightarrow> VigraArray \<Rightarrow> error + VigraArray" where
  "flatten sd self =
     (case swapaxes self 0 (int sd - 1) of
        Inl e \<Rightarrow> Inl e
      | Inr sw \<Rightarrow>
          Inr ((finalize sw [prod_list (vshape sw)])\<lparr>axistags := Some (unknown_tags 1)\<rparr>))"

text \<open>
  The shape NumPy gives the result of \<^verbatim>\<open>transpose\<close>: without axes the reversed shape, with
  axes the shape permuted by them, which must be a permutation of the axis numbers.
\<close>

definition numpy_transpose_shape :: "int list \<Rightarrow> int list option \<Rightarrow> error + int list" where
  "numpy_transpose_shape shp axes =
     (case axes of
        None \<Rightarrow> Inr (rev shp)
      | Some ax \<Rightarrow>
          (let n = length shp; nx = map (normalize_axis n) ax
           in if length ax = n \<and> list_all (\<lambda>k. 0 \<le> k \<and> k < int n) nx \<and> distinct nx
              then Inr (map (\<lambda>k. shp ! nat k) nx)
              else Inl ValueError))"

text \<open>
  \<^verbatim>\<open>
  def transpose(self, *axes):
      res = numpy.ndarray.transpose(self, *axes)
      if not hasattr(res, 'axistags'):
          return res
      res.axistags = AxisTags(res.axistags)
      if len(axes) == 1:
          axes = axes[0]
      if not axes:
          res.axistags.transpose()
      else:
          res.axistags.transpose(axes)
      return res
  \<close>
  \<open>axes\<close> is \<open>None\<close> for a call without axes (or with \<^verbatim>\<open>None\<close> or an empty
  sequence), and the sequence of the axes otherwise.
\<close>

definition transpose_array :: "VigraArray \<Rightarrow> int list option \<Rightarrow> error + VigraArray" where
  "transpose_array self axes =
     (case numpy_transpose_shape (vshape self) axes of
        Inl e \<Rightarrow> Inl e
      | Inr shp \<Rightarrow>
          (let res = finalize self shp
           in case axistags res of
                None \<Rightarrow> Inr res
              | Some tags \<Rightarrow>
                  (case tags_transpose tags axes of
                     Inl e \<Rightarrow> Inl e
                   | Inr tags' \<Rightarrow> Inr (res\<lparr>axistags := Some tags'\<rparr>))))"

text \<open>
  The shape NumPy gives the result of \<^verbatim>\<open>repeat(repeats, axis)\<close> for a number \<open>repeats\<close>:
  without an axis the flattened array is repeated, with an axis the extent of that axis
  is multiplied.
\<close>

definition numpy_repeat_shape :: "int list \<Rightarrow> int \<Rightarrow> int option \<Rightarrow> error + int list" where
  "numpy_repeat_shape shp repeats axis =
     (if repeats < 0 then Inl ValueError
      else
        (case axis of
           None \<Rightarrow> Inr [prod_list shp * repeats]
         | Some k \<Rightarrow>
             (let j = normalize_axis (length shp) k
              in if 0 \<le> j \<and> j < int (length shp)
                 then Inr (shp[nat j := shp ! nat j * repeats])
                 else Inl ValueError)))"

text \<open>
  \<^verbatim>\<open>
  def repeat(self, repeats, axis=None):
      res = numpy.ndarray.repeat(self, repeats, axis)
      if axis is None:
          res.axistags = AxisTags(res.ndim)
      return res
  \<close>
\<close>

definition repeat :: "VigraArray \<Rightarrow> int \<Rightarrow> int option \<Rightarrow> error + VigraArray" where
  "repeat self repeats axis =
     (case numpy_repeat_shape (vshape self) repeats axis of
        Inl e \<Rightarrow> Inl e
      | Inr shp \<Rightarrow>
          (let res = finalize self shp
           in if axis = None then Inr (res\<lparr>axistags := Some (unknown_tags (length shp))\<rparr>)
              else Inr res))"

text \<open>
  The shape NumPy gives the result of \<^verbatim>\<open>take(indices, axis)\<close>, where \<open>ishape\<close> is the shape
  of \<open>indices\<close> (empty for a single integer): without an axis the elements are taken from
  the flattened array and the result has the shape of the indices; with an axis, that axis
  is replaced by the axes of the indices. The indices themselves are taken to be in range.
\<close>

definition numpy_take_shape :: "int list \<Rightarrow> int list \<Rightarrow> int option \<Rightarrow> error + int list" where
  "numpy_take_shape shp ishape axis =
     (case axis of
        None \<Rightarrow> Inr ishape
      | Some k \<Rightarrow>
          (let j = normalize_axis (length shp) k
           in if 0 \<le> j \<and> j < int (length shp)
              then Inr (take (nat j) shp @ ishape @ drop (Suc (nat j)) shp)
              else Inl ValueError))"

text \<open>
  \<^verbatim>\<open>
  def take(self, indices, axis=None, out=None, mode='raise'):
      res = numpy.ndarray.take(self, indices, axis, out, mode)
      if axis is None:
          res.axistags = AxisTags(res.ndim)
      return res
  \<close>
\<close>

definition take_array :: "VigraArray \<Rightarrow> int list \<Rightarrow> int option \<Rightarrow> error + VigraArray" where
  "take_array self ishape axis =
     (case numpy_take_shape (vshape self) ishape axis of
        Inl e \<Rightarrow> Inl e
      | Inr shp \<Rightarrow>
          (let res = finalize self shp
           in if axis = None then Inr (res\<lparr>axistags := Some (unknown_tags (length shp))\<rparr>)
              else Inr res))"

text \<open>
  The number of elements that the slice \<^verbatim>\<open>start:stop:step\<close> selects from an axis of
  extent \<open>n\<close>, as Python's \<^verbatim>\<open>slice.indices\<close> computes it.
\<close>

definition clamp_slice :: "int \<Rightarrow> int \<Rightarrow> int \<Rightarrow> int \<Rightarrow> int" where
  "clamp_slice n lo hi v = (let w = (if v < 0 then v + n else v) in max lo (min hi w))"

definition slice_length :: "int \<Rightarrow> int option \<Rightarrow> int option \<Rightarrow> int option \<Rightarrow> error + int" where
  "slice_length n start stop step =
     (let st = (case step of None \<Rightarrow> 1 | Some s \<Rightarrow> s) in
      if st = 0 then Inl ValueError
      else if st > 0 then
        (let a = (case start of None \<Rightarrow> 0 | Some v \<Rightarrow> clamp_slice n 0 n v);
             b = (case stop of None \<Rightarrow> n | Some v \<Rightarrow> clamp_slice n 0 n v)
         in Inr (if a < b then (b - a - 1) div st + 1 else 0))
      else
        (let a = (case start of None \<Rightarrow> n - 1 | Some v \<Rightarrow> clamp_slice n (- 1) (n - 1) v);
             b = (case stop of None \<Rightarrow> - 1 | Some v \<Rightarrow> clamp_slice n (- 1) (n - 1) v)
         in Inr (if b < a then (a - b - 1) div (- st) + 1 else 0)))"

text \<open>
  The shape of the view that basic indexing returns: an integer consumes an axis, a slice
  replaces the extent of its axis by the number of selected elements, \<^verbatim>\<open>newaxis\<close> inserts
  an axis of extent 1, the first \<^verbatim>\<open>...\<close> stands for \<open>e\<close> axes and a later one for a single
  axis, and the axes that are not indexed stay.
\<close>

fun basic_shape :: "int list \<Rightarrow> index_item list \<Rightarrow> nat \<Rightarrow> error + int list" where
  "basic_shape shp [] e = Inr shp"
| "basic_shape shp (IInt i # items) e =
     (case shp of
        [] \<Rightarrow> Inl IndexError
      | n # rest \<Rightarrow> if - n \<le> i \<and> i < n then basic_shape rest items e else Inl IndexError)"
| "basic_shape shp (ISlice a b c # items) e =
     (case shp of
        [] \<Rightarrow> Inl IndexError
      | n # rest \<Rightarrow>
          (case slice_length n a b c of
             Inl err \<Rightarrow> Inl err
           | Inr m \<Rightarrow>
               (case basic_shape rest items e of
                  Inl err \<Rightarrow> Inl err
                | Inr s \<Rightarrow> Inr (m # s))))"
| "basic_shape shp (INewAxis # items) e =
     (case basic_shape shp items e of Inl err \<Rightarrow> Inl err | Inr s \<Rightarrow> Inr (1 # s))"
| "basic_shape shp (IEllipsis # items) e =
     (if length shp < e then Inl IndexError
      else
        (case basic_shape (drop e shp) items 1 of
           Inl err \<Rightarrow> Inl err
         | Inr s \<Rightarrow> Inr (take e shp @ s)))"

text \<open>
  What \<^verbatim>\<open>numpy.ndarray.__getitem__\<close> returns: the array itself for the index \<^verbatim>\<open>...\<close>, a
  plain value when integers consume all axes, a view of the array for any other basic
  index, and a fresh array for advanced indexing.
\<close>

datatype numpy_item = NpSelf | NpValue | NpView "int list" | NpCopy "int list"

definition numpy_getitem :: "int list \<Rightarrow> index \<Rightarrow> error + numpy_item" where
  "numpy_getitem shp idx =
     (case idx of
        Fancy rshape \<Rightarrow> Inr (NpCopy rshape)
      | Basic items \<Rightarrow>
          if items = [IEllipsis] then Inr NpSelf
          else if ellipsis_length (length shp) items < 0 then Inl IndexError
          else
            (case basic_shape shp items (nat (ellipsis_length (length shp) items)) of
               Inl e \<Rightarrow> Inl e
             | Inr s \<Rightarrow>
                 if s = [] \<and> list_all (\<lambda>it. case it of IInt i \<Rightarrow> True | _ \<Rightarrow> False) items
                    \<and> items \<noteq> []
                 then Inr NpValue else Inr (NpView s)))"

text \<open>
  \<^verbatim>\<open>
  def __getitem__(self, index):
      res = numpy.ndarray.__getitem__(self, index)
      if res is not self and hasattr(res, 'axistags'):
          if(res.base is self):
              res.axistags = res.axistags.transform(index, res.ndim)
          else:
              res.axistags = AxisTags(res.ndim)
      return res
  \<close>
  A view has the array as its base, a fresh array has not; both are finalized from the
  array and carry its attribute \<^verbatim>\<open>axistags\<close>, if it has one.
\<close>

definition getitem :: "VigraArray \<Rightarrow> index \<Rightarrow> error + result" where
  "getitem self idx =
     (case numpy_getitem (vshape self) idx of
        Inl e \<Rightarrow> Inl e
      | Inr NpSelf \<Rightarrow> Inr (ArrayResult self)
      | Inr NpValue \<Rightarrow> Inr Value
      | Inr (NpView shp) \<Rightarrow>
          (let res = finalize self shp
           in case axistags res of
                None \<Rightarrow> Inr (ArrayResult res)
              | Some tags \<Rightarrow>
                  Inr (ArrayResult (res\<lparr>axistags := Some (tags_transform tags idx (length shp))\<rparr>)))
      | Inr (NpCopy shp) \<Rightarrow>
          (let res = finalize self shp
           in case axistags res of
                None \<Rightarrow> Inr (ArrayResult res)
              | Some tags \<Rightarrow>
                  Inr (ArrayResult (res\<lparr>axistags := Some (unknown_tags (length shp))\<rparr>))))"

text \<open>
  The invariant of the axis tags: an array that carries tags carries one tag for each of
  its axes.
\<close>

definition tags_ok :: "VigraArray \<Rightarrow> bool" where
  "tags_ok a = (case axistags a of None \<Rightarrow> True | Some tags \<Rightarrow> length tags = length (vshape a))"


section \<open>Properties of the layout resolver\<close>

text \<open>
  The loop that fills \<open>ppshape\<close> keeps the length of the list, leaves alone the
  positions it does not write, and, when no position is written twice, leaves at position
  \<open>strideOrdering[k]\<close> the extent \<open>pshape[k]\<close>.
\<close>

lemma fill_ppshape_length:
  "fill_ppshape so p ks pp0 = Inr pp \<Longrightarrow> length pp = length pp0"
proof (induction ks arbitrary: pp0)
  case Nil
  then show ?case by simp
next
  case (Cons k ks)
  then show ?case
    by (auto simp: py_getitem_def py_setitem_def Let_def split: sum.splits if_splits)
qed

lemma fill_ppshape_untouched:
  "fill_ppshape so p ks pp0 = Inr pp \<Longrightarrow>
   int j \<notin> set (map (\<lambda>k. normalize_axis (length pp0) (so ! k)) ks) \<Longrightarrow>
   pp ! j = pp0 ! j"
proof (induction ks arbitrary: pp0)
  case Nil
  then show ?case by simp
next
  case (Cons k ks)
  from Cons.prems(1) obtain pp1 where
    s: "py_setitem pp0 (so ! k) (p ! k) = Inr pp1" and
    r: "fill_ppshape so p ks pp1 = Inr pp"
    by (auto simp: py_getitem_def split: sum.splits if_splits)
  from s have len: "length pp1 = length pp0"
    by (auto simp: py_setitem_def Let_def split: if_splits)
  from s Cons.prems(2) have "pp1 ! j = pp0 ! j"
    by (auto simp: py_setitem_def Let_def normalize_axis_def add.commute split: if_splits)
  moreover have "pp ! j = pp1 ! j"
    using Cons.IH [OF r] Cons.prems(2) len by simp
  ultimately show ?case by simp
qed

lemma fill_ppshape_nth:
  "fill_ppshape so p ks pp0 = Inr pp \<Longrightarrow>
   distinct (map (\<lambda>k. normalize_axis (length pp0) (so ! k)) ks) \<Longrightarrow>
   k \<in> set ks \<Longrightarrow>
   pp ! nat (normalize_axis (length pp0) (so ! k)) = p ! k"
proof (induction ks arbitrary: pp0)
  case Nil
  then show ?case by simp
next
  case (Cons k' ks)
  from Cons.prems(1) obtain pp1 where
    s: "py_setitem pp0 (so ! k') (p ! k') = Inr pp1" and
    r: "fill_ppshape so p ks pp1 = Inr pp"
    by (auto simp: py_getitem_def split: sum.splits if_splits)
  from s have len: "length pp1 = length pp0"
    by (auto simp: py_setitem_def Let_def split: if_splits)
  from s have rng: "0 \<le> normalize_axis (length pp0) (so ! k')"
      "normalize_axis (length pp0) (so ! k') < int (length pp0)"
    and pp1: "pp1 = pp0[nat (normalize_axis (length pp0) (so ! k')) := p ! k']"
    by (auto simp: py_setitem_def Let_def normalize_axis_def add.commute split: if_splits)
  show ?case
  proof (cases "k \<in> set ks")
    case True
    then show ?thesis
      using Cons.IH [OF r] Cons.prems(2) len by simp
  next
    case False
    with Cons.prems(3) have k: "k = k'" by simp
    have "int (nat (normalize_axis (length pp0) (so ! k'))) \<notin>
            set (map (\<lambda>k. normalize_axis (length pp1) (so ! k)) ks)"
      using Cons.prems(2) rng len by auto
    from fill_ppshape_untouched [OF r this]
    show ?thesis using pp1 rng k by simp
  qed
qed

text \<open>
  Transposing by the stride ordering undoes the permutation of the extents: a
  successfully constructed array has the shape \<open>pshape\<close>.
\<close>

lemma constructNumpyArray_alloc_shape:
  assumes "constructNumpyArray_alloc ob sd chn isz ord = Inr res"
    and "deduce_channels (obj_shape ob) sd chn = Inr ch"
  shows "shape res = pshape (obj_shape ob) sd ch"
proof -
  define p where "p = pshape (obj_shape ob) sd ch"
  from assms obtain so pp a where
    so: "strideOrdering_of ob sd chn ord = Inr so" and
    f: "fill_ppshape so p [0..<length p] (replicate (length p) 0) = Inr pp" and
    a: "ndarray_new_F pp isz = Inr a" and
    t: "ndarray_transpose a so = Inr res"
    by (auto simp: constructNumpyArray_alloc_def p_def Let_def split: sum.splits)
  from fill_ppshape_length [OF f] have lpp: "length pp = length p" by simp
  from a have sa: "shape a = pp"
    by (auto simp: ndarray_new_F_def split: if_splits)
  from t sa lpp have lso: "length so = length p"
    and dist: "distinct (map (normalize_axis (length p)) so)"
    and sr: "shape res = map (\<lambda>k. pp ! nat k) (map (normalize_axis (length p)) so)"
    by (auto simp: ndarray_transpose_def Let_def split: if_splits)
  have so_nth: "map (\<lambda>k. so ! k) [0..<length p] = so"
    using map_nth [of so] lso by simp
  have d2: "distinct (map (\<lambda>k. normalize_axis (length (replicate (length p) (0::int))) (so ! k))
              [0..<length p])"
  proof -
    have "map (\<lambda>k. normalize_axis (length p) (so ! k)) [0..<length p] =
          map (normalize_axis (length p)) (map (\<lambda>k. so ! k) [0..<length p])"
      by simp
    with so_nth dist show ?thesis by simp
  qed
  have "shape res ! k = p ! k" if "k < length p" for k
  proof -
    have "pp ! nat (normalize_axis (length (replicate (length p) (0::int))) (so ! k)) = p ! k"
      by (rule fill_ppshape_nth [OF f d2]) (use that in simp)
    then show ?thesis using sr lso that by simp
  qed
  moreover have "length (shape res) = length p" using sr lso by simp
  ultimately show ?thesis unfolding p_def by (simp add: list_eq_iff_nth_eq)
qed

section \<open>Strides and contiguity of the canonical layouts\<close>

lemma py_setitem_normalize:
  "py_setitem xs i v =
     (if 0 \<le> normalize_axis (length xs) i \<and> normalize_axis (length xs) i < int (length xs)
      then Inr (xs[nat (normalize_axis (length xs) i) := v]) else Inl IndexError)"
  by (simp add: py_setitem_def normalize_axis_def Let_def)

lemma fill_ppshape_succeeds:
  "(\<And>k. k \<in> set ks \<Longrightarrow> k < length so \<and> 0 \<le> normalize_axis (length pp0) (so ! k) \<and>
       normalize_axis (length pp0) (so ! k) < int (length pp0)) \<Longrightarrow>
   \<exists>pp. fill_ppshape so p ks pp0 = Inr pp"
proof (induction ks arbitrary: pp0)
  case Nil
  then show ?case by simp
next
  case (Cons k ks)
  from Cons.prems [of k] obtain pp1 where
    s: "py_setitem pp0 (so ! k) (p ! k) = Inr pp1" and len: "length pp1 = length pp0"
    by (auto simp: py_setitem_normalize)
  have "\<exists>pp. fill_ppshape so p ks pp1 = Inr pp"
    by (rule Cons.IH) (use Cons.prems len in auto)
  with s Cons.prems [of k] show ?case by (auto simp: py_getitem_def)
qed

text \<open>
  With a stride ordering that is a permutation of the axis numbers, and extents that are
  not negative, the construction succeeds: the loop fills \<open>ppshape\<close>, the allocation
  accepts it, and the transposition gives the shape \<open>pshape\<close> and the strides of the
  allocation, permuted.
\<close>

lemma construct_with_ordering:
  assumes len: "length so = length p"
    and rng: "\<And>k. k < length p \<Longrightarrow> 0 \<le> so ! k \<and> so ! k < int (length p)"
    and dist: "distinct so"
    and nonneg: "\<And>d. d \<in> set p \<Longrightarrow> 0 \<le> d"
  shows "\<exists>pp. fill_ppshape so p [0..<length p] (replicate (length p) 0) = Inr pp \<and>
     length pp = length p \<and>
     (\<forall>k < length p. pp ! nat (so ! k) = p ! k) \<and>
     (case ndarray_new_F pp isz of Inl e \<Rightarrow> Inl e | Inr res \<Rightarrow> ndarray_transpose res so) =
       Inr \<lparr>shape = p, strides = map (\<lambda>k. fortran_strides isz pp ! nat k) so, itemsize = isz\<rparr>"
proof -
  have norm: "normalize_axis (length p) (so ! k) = so ! k" if "k < length p" for k
    using rng [OF that] by (simp add: normalize_axis_def)
  have "\<exists>pp. fill_ppshape so p [0..<length p] (replicate (length p) 0) = Inr pp"
    by (rule fill_ppshape_succeeds) (use len rng norm in auto)
  then obtain pp where f: "fill_ppshape so p [0..<length p] (replicate (length p) 0) = Inr pp" ..
  from fill_ppshape_length [OF f] have lpp: "length pp = length p" by simp
  have mapso: "map (\<lambda>k. normalize_axis (length p) (so ! k)) [0..<length p] = so"
  proof -
    have "map (\<lambda>k. normalize_axis (length p) (so ! k)) [0..<length p] =
          map (\<lambda>k. so ! k) [0..<length p]"
      using norm by simp
    also have "\<dots> = so" using map_nth [of so] len by simp
    finally show ?thesis .
  qed
  have d2: "distinct (map (\<lambda>k. normalize_axis (length (replicate (length p) (0::int))) (so ! k))
              [0..<length p])"
    using mapso dist by simp
  have nth: "pp ! nat (so ! k) = p ! k" if "k < length p" for k
  proof -
    have "pp ! nat (normalize_axis (length (replicate (length p) (0::int))) (so ! k)) = p ! k"
      by (rule fill_ppshape_nth [OF f d2]) (use that in simp)
    with norm [OF that] show ?thesis by simp
  qed
  have setpp: "set pp \<subseteq> set p"
  proof
    fix x assume "x \<in> set pp"
    then obtain j where j: "j < length pp" "x = pp ! j" by (auto simp: in_set_conv_nth)
    have "int ` {0..<length p} = set so"
    proof (rule card_subset_eq [symmetric, OF _ _ _])
      show "finite (int ` {0..<length p})" by simp
      show "set so \<subseteq> int ` {0..<length p}"
      proof
        fix y assume "y \<in> set so"
        then obtain k where "k < length so" "y = so ! k" by (auto simp: in_set_conv_nth)
        with rng [of k] len have "0 \<le> y" "y < int (length p)" by auto
        then have "y = int (nat y)" "nat y < length p" by auto
        then show "y \<in> int ` {0..<length p}" by (metis atLeastLessThan_iff image_eqI zero_le)
      qed
      show "card (set so) = card (int ` {0..<length p})"
        using dist len by (simp add: distinct_card card_image)
    qed
    with j lpp have "int j \<in> set so" by auto
    then obtain k where k: "k < length so" "so ! k = int j" by (auto simp: in_set_conv_nth)
    with nth [of k] len have "pp ! j = p ! k" by simp
    with j k len show "x \<in> set p" by simp
  qed
  have nn: "\<not> list_ex (\<lambda>d. d < 0) pp"
    using setpp nonneg unfolding list_ex_iff by fastforce
  have all: "list_all (\<lambda>k. 0 \<le> k \<and> k < int (length pp)) (map (normalize_axis (length pp)) so)"
    unfolding list_all_iff
  proof
    fix y assume "y \<in> set (map (normalize_axis (length pp)) so)"
    then obtain k where "k < length so" "y = normalize_axis (length pp) (so ! k)"
      by (auto simp: in_set_conv_nth)
    with rng [of k] norm [of k] len lpp show "0 \<le> y \<and> y < int (length pp)" by simp
  qed
  have mapnorm: "map (normalize_axis (length pp)) so = so"
  proof (rule nth_equalityI)
    show "length (map (normalize_axis (length pp)) so) = length so" by simp
    fix i assume "i < length (map (normalize_axis (length pp)) so)"
    then show "map (normalize_axis (length pp)) so ! i = so ! i"
      using norm [of i] len lpp by simp
  qed
  have shp: "map (\<lambda>k. pp ! nat k) so = p"
  proof (rule nth_equalityI)
    show "length (map (\<lambda>k. pp ! nat k) so) = length p" using len by simp
    fix i assume "i < length (map (\<lambda>k. pp ! nat k) so)"
    then show "map (\<lambda>k. pp ! nat k) so ! i = p ! i" using nth [of i] len by simp
  qed
  have "(case ndarray_new_F pp isz of Inl e \<Rightarrow> Inl e | Inr res \<Rightarrow> ndarray_transpose res so) =
       Inr \<lparr>shape = p, strides = map (\<lambda>k. fortran_strides isz pp ! nat k) so, itemsize = isz\<rparr>"
    using nn all mapnorm dist len lpp shp
    by (simp add: ndarray_new_F_def ndarray_transpose_def Let_def)
  with f lpp nth show ?thesis by blast
qed

lemma length_fortran_strides [simp]: "length (fortran_strides sd ds) = length ds"
  by (induction ds arbitrary: sd) simp_all

text \<open>The three canonical stride orderings, and the strides each of them gives.\<close>

lemma layout_F:
  assumes nonneg: "\<And>d. d \<in> set p \<Longrightarrow> 0 \<le> d"
  shows "(case fill_ppshape (map int [0..<length p]) p [0..<length p] (replicate (length p) 0) of
            Inl e \<Rightarrow> Inl e
          | Inr pp \<Rightarrow> (case ndarray_new_F pp isz of Inl e \<Rightarrow> Inl e
                       | Inr res \<Rightarrow> ndarray_transpose res (map int [0..<length p]))) =
         Inr \<lparr>shape = p, strides = fortran_strides isz p, itemsize = isz\<rparr>"
proof -
  let ?so = "map int [0..<length p]"
  have "\<exists>pp. fill_ppshape ?so p [0..<length p] (replicate (length p) 0) = Inr pp \<and>
     length pp = length p \<and>
     (\<forall>k < length p. pp ! nat (?so ! k) = p ! k) \<and>
     (case ndarray_new_F pp isz of Inl e \<Rightarrow> Inl e | Inr res \<Rightarrow> ndarray_transpose res ?so) =
       Inr \<lparr>shape = p, strides = map (\<lambda>k. fortran_strides isz pp ! nat k) ?so, itemsize = isz\<rparr>"
    by (rule construct_with_ordering) (use nonneg in \<open>auto simp: distinct_map inj_on_def\<close>)
  then obtain pp where f: "fill_ppshape ?so p [0..<length p] (replicate (length p) 0) = Inr pp"
    and l: "length pp = length p"
    and n: "\<forall>k < length p. pp ! nat (?so ! k) = p ! k"
    and r: "(case ndarray_new_F pp isz of Inl e \<Rightarrow> Inl e | Inr res \<Rightarrow> ndarray_transpose res ?so) =
       Inr \<lparr>shape = p, strides = map (\<lambda>k. fortran_strides isz pp ! nat k) ?so, itemsize = isz\<rparr>"
    by blast
  have pp: "pp = p"
    using l n by (auto intro: nth_equalityI)
  have "map (\<lambda>k. fortran_strides isz p ! nat k) ?so = fortran_strides isz p"
    by (rule nth_equalityI) simp_all
  with f r pp show ?thesis by simp
qed

lemma layout_C:
  assumes nonneg: "\<And>d. d \<in> set p \<Longrightarrow> 0 \<le> d"
  shows "(case fill_ppshape (rev (map int [0..<length p])) p [0..<length p] (replicate (length p) 0) of
            Inl e \<Rightarrow> Inl e
          | Inr pp \<Rightarrow> (case ndarray_new_F pp isz of Inl e \<Rightarrow> Inl e
                       | Inr res \<Rightarrow> ndarray_transpose res (rev (map int [0..<length p])))) =
         Inr \<lparr>shape = p, strides = rev (fortran_strides isz (rev p)), itemsize = isz\<rparr>"
proof -
  let ?n = "length p"
  let ?so = "rev (map int [0..<?n])"
  have so_nth: "?so ! k = int (?n - 1 - k)" if "k < ?n" for k
    using that by (simp add: rev_nth)
  have "\<exists>pp. fill_ppshape ?so p [0..<?n] (replicate ?n 0) = Inr pp \<and>
     length pp = ?n \<and>
     (\<forall>k < ?n. pp ! nat (?so ! k) = p ! k) \<and>
     (case ndarray_new_F pp isz of Inl e \<Rightarrow> Inl e | Inr res \<Rightarrow> ndarray_transpose res ?so) =
       Inr \<lparr>shape = p, strides = map (\<lambda>k. fortran_strides isz pp ! nat k) ?so, itemsize = isz\<rparr>"
  proof (rule construct_with_ordering)
    show "length ?so = ?n" by simp
    show "0 \<le> ?so ! k \<and> ?so ! k < int ?n" if "k < ?n" for k
      using so_nth [OF that] that by simp
    show "distinct ?so" by (simp add: distinct_map inj_on_def)
    show "0 \<le> d" if "d \<in> set p" for d using nonneg that .
  qed
  then obtain pp where f: "fill_ppshape ?so p [0..<?n] (replicate ?n 0) = Inr pp"
    and l: "length pp = ?n"
    and n: "\<forall>k < ?n. pp ! nat (?so ! k) = p ! k"
    and r: "(case ndarray_new_F pp isz of Inl e \<Rightarrow> Inl e | Inr res \<Rightarrow> ndarray_transpose res ?so) =
       Inr \<lparr>shape = p, strides = map (\<lambda>k. fortran_strides isz pp ! nat k) ?so, itemsize = isz\<rparr>"
    by blast
  have pp: "pp = rev p"
  proof (rule nth_equalityI)
    show "length pp = length (rev p)" using l by simp
    fix j assume "j < length pp"
    with l have j: "j < ?n" by simp
    then have k: "?n - 1 - j < ?n" by simp
    from n k have "pp ! nat (?so ! (?n - 1 - j)) = p ! (?n - 1 - j)" by blast
    moreover from so_nth [OF k] j have "?so ! (?n - 1 - j) = int j" by simp
    ultimately have "pp ! j = p ! (?n - 1 - j)" by simp
    with j show "pp ! j = rev p ! j" by (simp add: rev_nth)
  qed
  have "map (\<lambda>k. fortran_strides isz (rev p) ! nat k) ?so = rev (fortran_strides isz (rev p))"
  proof -
    have "map (\<lambda>k. fortran_strides isz (rev p) ! nat k) (map int [0..<?n]) =
          fortran_strides isz (rev p)"
      by (rule nth_equalityI) simp_all
    moreover have "map (\<lambda>k. fortran_strides isz (rev p) ! nat k) (rev (map int [0..<?n])) =
          rev (map (\<lambda>k. fortran_strides isz (rev p) ! nat k) (map int [0..<?n]))"
      by (rule rev_map [symmetric])
    ultimately show ?thesis by simp
  qed
  with f r pp show ?thesis by simp
qed

lemma layout_V:
  assumes nonneg: "\<And>d. d \<in> set p \<Longrightarrow> 0 \<le> d"
    and ne: "p \<noteq> []"
  shows "(case fill_ppshape ((map int [1..<length p + 1])[length p - 1 := 0]) p [0..<length p]
                 (replicate (length p) 0) of
            Inl e \<Rightarrow> Inl e
          | Inr pp \<Rightarrow> (case ndarray_new_F pp isz of Inl e \<Rightarrow> Inl e
                       | Inr res \<Rightarrow>
                           ndarray_transpose res ((map int [1..<length p + 1])[length p - 1 := 0]))) =
         Inr \<lparr>shape = p,
              strides = fortran_strides (isz * (if last p = 0 then 1 else last p)) (butlast p) @ [isz],
              itemsize = isz\<rparr>"
proof -
  define n where "n = length p"
  define so where "so = (map int [1..<n + 1])[n - 1 := 0]"
  from ne have n0: "0 < n" by (simp add: n_def)
  have lso: "length so = n" by (simp add: so_def del: upt_Suc)
  have so_nth: "so ! k = (if k = n - 1 then 0 else int (k + 1))" if "k < n" for k
    using that by (simp add: so_def nth_list_update del: upt_Suc)
  have dist: "distinct so"
    unfolding distinct_conv_nth
  proof (intro allI impI)
    fix i j assume "i < length so" "j < length so" "i \<noteq> j"
    then show "so ! i \<noteq> so ! j"
      using so_nth [of i] so_nth [of j] lso by (auto split: if_splits)
  qed
  have "\<exists>pp. fill_ppshape so p [0..<length p] (replicate (length p) 0) = Inr pp \<and>
     length pp = length p \<and>
     (\<forall>k < length p. pp ! nat (so ! k) = p ! k) \<and>
     (case ndarray_new_F pp isz of Inl e \<Rightarrow> Inl e | Inr res \<Rightarrow> ndarray_transpose res so) =
       Inr \<lparr>shape = p, strides = map (\<lambda>k. fortran_strides isz pp ! nat k) so, itemsize = isz\<rparr>"
  proof (rule construct_with_ordering)
    show "length so = length p" using lso by (simp add: n_def)
    show "0 \<le> so ! k \<and> so ! k < int (length p)" if "k < length p" for k
      using so_nth [of k] that by (auto simp: n_def)
    show "distinct so" by (rule dist)
    show "0 \<le> d" if "d \<in> set p" for d using nonneg that .
  qed
  then obtain pp where f: "fill_ppshape so p [0..<length p] (replicate (length p) 0) = Inr pp"
    and l: "length pp = n"
    and nth: "\<And>k. k < n \<Longrightarrow> pp ! nat (so ! k) = p ! k"
    and r: "(case ndarray_new_F pp isz of Inl e \<Rightarrow> Inl e | Inr res \<Rightarrow> ndarray_transpose res so) =
       Inr \<lparr>shape = p, strides = map (\<lambda>k. fortran_strides isz pp ! nat k) so, itemsize = isz\<rparr>"
    unfolding n_def by blast
  have pp: "pp = last p # butlast p"
  proof (rule nth_equalityI)
    show "length pp = length (last p # butlast p)" using l n0 by (simp add: n_def)
    fix j assume "j < length pp"
    with l have j: "j < n" by simp
    show "pp ! j = (last p # butlast p) ! j"
    proof (cases j)
      case 0
      from nth [of "n - 1"] n0 so_nth [of "n - 1"] have "pp ! 0 = p ! (n - 1)" by simp
      with 0 ne show ?thesis by (simp add: last_conv_nth n_def)
    next
      case (Suc i)
      with j have i: "i < n - 1" by simp
      then have "so ! i = int (i + 1)" using so_nth [of i] by simp
      moreover have "nat (int (i + 1)) = i + 1" by simp
      moreover from i have "i < n" by simp
      ultimately have "pp ! (i + 1) = p ! i" using nth [of i] by metis
      with Suc i show ?thesis by (simp add: nth_butlast n_def)
    qed
  qed
  let ?c = "if last p = 0 then 1 else last p"
  have fs: "fortran_strides isz pp = isz # fortran_strides (isz * ?c) (butlast p)"
    using pp by simp
  have "map (\<lambda>k. fortran_strides isz pp ! nat k) so =
        fortran_strides (isz * ?c) (butlast p) @ [isz]"
  proof (rule nth_equalityI)
    show "length (map (\<lambda>k. fortran_strides isz pp ! nat k) so) =
          length (fortran_strides (isz * ?c) (butlast p) @ [isz])"
      using lso n0 by (simp add: n_def)
    fix i assume "i < length (map (\<lambda>k. fortran_strides isz pp ! nat k) so)"
    then have i: "i < n" using lso by simp
    have lb: "length (fortran_strides (isz * ?c) (butlast p)) = n - 1"
      by (simp add: n_def)
    show "map (\<lambda>k. fortran_strides isz pp ! nat k) so ! i =
          (fortran_strides (isz * ?c) (butlast p) @ [isz]) ! i"
    proof (cases "i = n - 1")
      case True
      with i lso so_nth [OF i] have "map (\<lambda>k. fortran_strides isz pp ! nat k) so ! i = isz"
        by (simp add: fs)
      moreover from True lb have "(fortran_strides (isz * ?c) (butlast p) @ [isz]) ! i = isz"
        by (simp add: nth_append)
      ultimately show ?thesis by simp
    next
      case False
      with i have i1: "i < n - 1" by simp
      have ni: "nat (1 + int i) = Suc i" by linarith
      from i1 i lso so_nth [OF i] have "map (\<lambda>k. fortran_strides isz pp ! nat k) so ! i =
          fortran_strides (isz * ?c) (butlast p) ! i"
        by (simp add: fs ni)
      moreover from i1 lb have "(fortran_strides (isz * ?c) (butlast p) @ [isz]) ! i =
          fortran_strides (isz * ?c) (butlast p) ! i"
        by (simp add: nth_append)
      ultimately show ?thesis by simp
    qed
  qed
  with f r show ?thesis unfolding so_def n_def by simp
qed

text \<open>
  A Fortran allocation is Fortran-contiguous, its reversal is C-contiguous; with at least
  two axes and extents of at least 2 it is not contiguous in the opposite direction.
\<close>

lemma contiguous_fortran: "contiguous_from sd (zip ds (fortran_strides sd ds))"
  by (induction ds arbitrary: sd) simp_all

lemma f_contiguous_fortran:
  "f_contiguous \<lparr>shape = p, strides = fortran_strides isz p, itemsize = isz\<rparr>"
proof (cases p)
  case Nil
  then show ?thesis by (simp add: f_contiguous_def)
next
  case (Cons d ds)
  show ?thesis
  proof (cases ds)
    case Nil
    with Cons show ?thesis by (simp add: f_contiguous_def)
  next
    case (Cons e es)
    have "contiguous_from isz (zip p (fortran_strides isz p))" by (rule contiguous_fortran)
    with Cons \<open>p = d # ds\<close> show ?thesis by (simp add: f_contiguous_def)
  qed
qed

lemma c_contiguous_reversed:
  "c_contiguous \<lparr>shape = p, strides = rev (fortran_strides isz (rev p)), itemsize = isz\<rparr>"
proof (cases p)
  case Nil
  then show ?thesis by (simp add: c_contiguous_def)
next
  case (Cons d ds)
  show ?thesis
  proof (cases ds)
    case Nil
    with Cons show ?thesis by (simp add: c_contiguous_def)
  next
    case (Cons e es)
    have "rev (zip p (rev (fortran_strides isz (rev p)))) = zip (rev p) (fortran_strides isz (rev p))"
      by (simp add: zip_rev [symmetric])
    moreover have "contiguous_from isz (zip (rev p) (fortran_strides isz (rev p)))"
      by (rule contiguous_fortran)
    ultimately have c: "contiguous_from isz (rev (zip p (rev (fortran_strides isz (rev p)))))"
      by simp
    obtain x y zs where z: "zip p (rev (fortran_strides isz (rev p))) = x # y # zs"
    proof -
      have "length (zip p (rev (fortran_strides isz (rev p)))) = Suc (Suc (length es))"
        using Cons \<open>p = d # ds\<close> by simp
      then show ?thesis using that
        by (metis length_Suc_conv)
    qed
    show ?thesis
      unfolding c_contiguous_def using c z by (simp del: fortran_strides.simps)
  qed
qed

lemma prod_list_ge2:
  "xs \<noteq> [] \<Longrightarrow> (\<And>x. x \<in> set xs \<Longrightarrow> (2::int) \<le> x) \<Longrightarrow> 2 \<le> prod_list xs"
proof (induction xs)
  case Nil
  then show ?case by simp
next
  case (Cons x xs)
  show ?case
  proof (cases "xs = []")
    case True
    with Cons.prems show ?thesis by simp
  next
    case False
    with Cons have "2 \<le> prod_list xs" by simp
    moreover from Cons.prems have "2 \<le> x" by simp
    ultimately have "2 * 1 \<le> x * prod_list xs" by (intro mult_mono) simp_all
    then show ?thesis by simp
  qed
qed

lemma last_fortran_strides:
  "ds \<noteq> [] \<Longrightarrow> (\<And>d. d \<in> set ds \<Longrightarrow> d \<noteq> 0) \<Longrightarrow>
   last (fortran_strides sd ds) = sd * prod_list (butlast ds)"
proof (induction ds arbitrary: sd)
  case Nil
  then show ?case by simp
next
  case (Cons d ds)
  show ?case
  proof (cases "ds = []")
    case True
    then show ?thesis by simp
  next
    case False
    from Cons.prems have d: "d \<noteq> 0" by simp
    have "last (fortran_strides (sd * d) ds) = sd * d * prod_list (butlast ds)"
      by (rule Cons.IH) (use False Cons.prems in auto)
    moreover have "fortran_strides (sd * d) ds \<noteq> []" using False by (cases ds) simp_all
    ultimately show ?thesis using False d by (simp add: mult.assoc)
  qed
qed

lemma not_contiguous_reversed:
  assumes "butlast q \<noteq> []" and ge: "\<And>d. d \<in> set q \<Longrightarrow> 2 \<le> d" and s: "0 < s"
  shows "\<not> contiguous_from s (rev (zip q (fortran_strides s q)))"
proof -
  from assms(1) have ne: "q \<noteq> []" by auto
  let ?fs = "fortran_strides s q"
  have fne: "?fs \<noteq> []" using ne by (cases q) simp_all
  have "zip q ?fs = zip (butlast q @ [last q]) (butlast ?fs @ [last ?fs])"
    using ne fne by simp
  also have "\<dots> = zip (butlast q) (butlast ?fs) @ [(last q, last ?fs)]"
    by (subst zip_append) simp_all
  finally have r: "rev (zip q ?fs) = (last q, last ?fs) # rev (zip (butlast q) (butlast ?fs))"
    by simp
  have nz: "d \<noteq> 0" if "d \<in> set q" for d using ge [OF that] by simp
  have l: "last ?fs = s * prod_list (butlast q)"
    by (rule last_fortran_strides) (use ne nz in auto)
  have "2 \<le> prod_list (butlast q)"
    by (rule prod_list_ge2) (use assms(1) ge in \<open>auto dest: in_set_butlastD\<close>)
  with s have "s * prod_list (butlast q) \<noteq> s" by simp
  moreover have "last q \<noteq> 0" using nz ne by simp
  ultimately show ?thesis unfolding r using l by simp
qed

lemma foldl_nondecreasing:
  "0 \<le> x \<Longrightarrow> x \<le> s \<Longrightarrow> (\<And>d. d \<in> set ds \<Longrightarrow> 1 \<le> d) \<Longrightarrow>
   0 \<le> foldl (\<lambda>x y. if y \<ge> x \<and> x \<ge> 0 then y else - 1) x (fortran_strides s ds)"
proof (induction ds arbitrary: x s)
  case Nil
  then show ?case by simp
next
  case (Cons d ds)
  from Cons.prems have d: "1 \<le> d" by simp
  with Cons.prems have "s * 1 \<le> s * d" by (intro mult_left_mono) simp_all
  then have "s \<le> s * d" by simp
  moreover from Cons.prems have "0 \<le> s" by simp
  ultimately have ih: "0 \<le> foldl (\<lambda>x y. if y \<ge> x \<and> x \<ge> 0 then y else - 1) s
      (fortran_strides (s * d) ds)"
    by (intro Cons.IH) (use Cons.prems in auto)
  from d have "d \<noteq> 0" by simp
  with ih show ?case using Cons.prems(1,2) by simp
qed

lemma contiguous_two_axes:
  assumes "2 \<le> length (shape a)" "length (strides a) = length (shape a)"
  shows "c_contiguous a = contiguous_from (itemsize a) (rev (zip (shape a) (strides a)))"
    and "f_contiguous a = contiguous_from (itemsize a) (zip (shape a) (strides a))"
proof -
  from assms have "2 \<le> length (zip (shape a) (strides a))" by simp
  then obtain x y zs where z: "zip (shape a) (strides a) = x # y # zs"
    by (metis Suc_le_length_iff numeral_2_eq_2)
  show "c_contiguous a = contiguous_from (itemsize a) (rev (zip (shape a) (strides a)))"
    and "f_contiguous a = contiguous_from (itemsize a) (zip (shape a) (strides a))"
    unfolding c_contiguous_def f_contiguous_def z by (cases x; simp)+
qed

text \<open>What \<^verbatim>\<open>order\<close> answers on the three canonical layouts.\<close>

lemma order_F_layout:
  assumes "2 \<le> length p" and ge: "\<And>d. d \<in> set p \<Longrightarrow> 2 \<le> d" and "0 < isz"
  shows "order sd \<lparr>shape = p, strides = fortran_strides isz p, itemsize = isz\<rparr> = OrderF"
proof -
  let ?a = "\<lparr>shape = p, strides = fortran_strides isz p, itemsize = isz\<rparr>"
  from assms(1) have "butlast p \<noteq> []" by (cases p) auto
  then have "\<not> contiguous_from isz (rev (zip p (fortran_strides isz p)))"
    using ge assms(3) by (rule not_contiguous_reversed)
  then have "\<not> c_contiguous ?a"
    using contiguous_two_axes(1) [of ?a] assms(1) by simp
  moreover have "f_contiguous ?a" by (rule f_contiguous_fortran)
  ultimately show ?thesis by (simp add: order_def)
qed

lemma order_C_layout:
  "order sd \<lparr>shape = p, strides = rev (fortran_strides isz (rev p)), itemsize = isz\<rparr> = OrderC"
  using c_contiguous_reversed [of p isz] by (simp add: order_def)

lemma order_V_layout:
  assumes len: "2 \<le> length bp" "length bp = sd" and ge: "\<And>d. d \<in> set bp \<Longrightarrow> 2 \<le> d"
    and c: "2 \<le> c" and isz: "0 < isz"
  shows "order sd \<lparr>shape = bp @ [c], strides = fortran_strides (isz * c) bp @ [isz],
                   itemsize = isz\<rparr> = OrderV"
proof -
  let ?fs = "fortran_strides (isz * c) bp"
  let ?a = "\<lparr>shape = bp @ [c], strides = ?fs @ [isz], itemsize = isz\<rparr>"
  from len have bne: "bp \<noteq> []" and bb: "butlast bp \<noteq> []" by (cases bp; auto)+
  from c isz have pos: "0 < isz * c" by simp
  have z: "zip (bp @ [c]) (?fs @ [isz]) = zip bp ?fs @ [(c, isz)]"
    by (subst zip_append) simp_all
  have "\<not> contiguous_from (isz * c) (rev (zip bp ?fs))"
    using bb ge pos by (rule not_contiguous_reversed)
  with c have "\<not> contiguous_from isz (rev (zip (bp @ [c]) (?fs @ [isz])))"
    unfolding z by simp
  then have nc: "\<not> c_contiguous ?a"
    using contiguous_two_axes(1) [of ?a] len by simp
  obtain d ds where bp: "bp = d # ds" using bne by (cases bp) auto
  with ge have d: "2 \<le> d" by simp
  from c isz have "isz * c \<noteq> isz" by simp
  with d have "\<not> contiguous_from isz (zip (bp @ [c]) (?fs @ [isz]))"
    unfolding bp by simp
  then have nf: "\<not> f_contiguous ?a"
    using contiguous_two_axes(2) [of ?a] len by simp
  have b: "bands sd ?a = c" using len by (simp add: bands_def)
  have "0 \<le> foldl (\<lambda>x y. if y \<ge> x \<and> x \<ge> 0 then y else - 1) 0 ?fs"
    by (rule foldl_nondecreasing) (use pos ge in \<open>auto dest: ge\<close>)
  with nc nf b c show ?thesis by (simp add: order_def)
qed

text \<open>The shape and the layout of a fresh array.\<close>

lemma pshape_channel_axis:
  assumes len: "length s = sd \<or> length s = sd + 1" and c: "c \<noteq> 1"
  shows "pshape s sd c = take sd s @ [c]"
proof -
  have l: "length (take sd s) = sd" using len by auto
  have "take (Suc sd) (s @ [0]) = take sd (s @ [0]) @ [(s @ [0]) ! sd]"
    by (rule take_Suc_conv_app_nth) (use len in auto)
  moreover have "take sd (s @ [0]) = take sd s" using len by auto
  ultimately have t: "take (sd + 1) (s @ [0]) = take sd s @ [(s @ [0]) ! sd]" by simp
  have "(take sd s @ [(s @ [0]) ! sd])[sd := c] = take sd s @ [c]"
    using list_update_length [of "take sd s" "(s @ [0]) ! sd" "[]" c] l by simp
  with c t l show ?thesis by (simp add: pshape_def shapeSize_def)
qed

lemma fresh_shape_cases:
  assumes len: "length s = sd \<or> length s = sd + 1"
    and ge: "\<And>d. d \<in> set s \<Longrightarrow> 2 \<le> d"
    and ch: "ch = 0 \<or> ch = 1 \<or> 2 \<le> ch"
  shows "(deduce_channels s sd ch = Inr 1 \<and> pshape s sd 1 = take sd s) \<or>
         (\<exists>c. deduce_channels s sd ch = Inr c \<and> 2 \<le> c \<and> pshape s sd c = take sd s @ [c])"
proof -
  consider (a) "ch = 1 \<or> (ch = 0 \<and> length s = sd)" | (b) "2 \<le> ch" | (c) "ch = 0" "length s = sd + 1"
    using ch len by auto
  then show ?thesis
  proof cases
    case a
    then have "deduce_channels s sd ch = Inr 1" by (auto simp: deduce_channels_def)
    moreover have "pshape s sd 1 = take sd s" using len by (auto simp: pshape_def shapeSize_def)
    ultimately show ?thesis by simp
  next
    case b
    then have d: "deduce_channels s sd ch = Inr ch" by (auto simp: deduce_channels_def)
    from b have "ch \<noteq> 1" by simp
    with len have "pshape s sd ch = take sd s @ [ch]" by (rule pshape_channel_axis)
    with d b show ?thesis by blast
  next
    case c
    then have ne: "s \<noteq> []" by auto
    with c have d: "deduce_channels s sd ch = Inr (last s)" by (simp add: deduce_channels_def)
    from ne ge have l2: "2 \<le> last s" by simp
    then have "last s \<noteq> 1" by simp
    with len have "pshape s sd (last s) = take sd s @ [last s]" by (rule pshape_channel_axis)
    with d l2 show ?thesis by blast
  qed
qed

lemma alloc_fresh:
  assumes d: "deduce_channels s sd ch = Inr c"
    and tok: "tok \<noteq> OrderA"
    and nonneg: "\<And>d. d \<in> set (pshape s sd c) \<Longrightarrow> 0 \<le> d"
    and ne: "pshape s sd c \<noteq> []"
  shows "constructNumpyArray_alloc (Sequence s) sd ch isz tok =
     Inr \<lparr>shape = pshape s sd c,
          strides =
            (if tok = OrderC then rev (fortran_strides isz (rev (pshape s sd c)))
             else if tok = OrderF \<or> c = 1 then fortran_strides isz (pshape s sd c)
             else fortran_strides
                    (isz * (if last (pshape s sd c) = 0 then 1 else last (pshape s sd c)))
                    (butlast (pshape s sd c)) @ [isz]),
          itemsize = isz\<rparr>"
proof -
  let ?p = "pshape s sd c"
  have so: "strideOrdering_of (Sequence s) sd ch tok =
      Inr (canonical_ordering tok None (length ?p) c)"
    using d tok by (simp add: strideOrdering_of_def obj_shape_def obj_strideOrdering_def
        resolve_auto_def Let_def)
  have c: "constructNumpyArray_alloc (Sequence s) sd ch isz tok =
      (case fill_ppshape (canonical_ordering tok None (length ?p) c) ?p [0..<length ?p]
              (replicate (length ?p) 0) of
         Inl e \<Rightarrow> Inl e
       | Inr pp \<Rightarrow> (case ndarray_new_F pp isz of Inl e \<Rightarrow> Inl e
                    | Inr res \<Rightarrow>
                        ndarray_transpose res (canonical_ordering tok None (length ?p) c)))"
    using d so by (simp add: constructNumpyArray_alloc_def obj_shape_def Let_def)
  show ?thesis
  proof (cases tok)
    case OrderC
    then have cs: "canonical_ordering tok None (length ?p) c = rev (map int [0..<length ?p])"
      by (simp add: canonical_ordering_def)
    show ?thesis unfolding c cs using layout_C [of ?p isz] nonneg OrderC by simp
  next
    case OrderF
    then have cs: "canonical_ordering tok None (length ?p) c = map int [0..<length ?p]"
      by (simp add: canonical_ordering_def)
    show ?thesis unfolding c cs using layout_F [of ?p isz] nonneg OrderF by simp
  next
    case OrderV
    show ?thesis
    proof (cases "c = 1")
      case True
      with OrderV have cs: "canonical_ordering tok None (length ?p) c = map int [0..<length ?p]"
        by (simp add: canonical_ordering_def)
      show ?thesis unfolding c cs using layout_F [of ?p isz] nonneg OrderV True by simp
    next
      case False
      with OrderV have cs: "canonical_ordering tok None (length ?p) c =
          (map int [1..<length ?p + 1])[length ?p - 1 := 0]"
        by (simp add: canonical_ordering_def del: upt_Suc)
      show ?thesis unfolding c cs using layout_V [of ?p isz] nonneg ne OrderV False
        by (simp del: upt_Suc)
    qed
  next
    case OrderA
    with tok show ?thesis by simp
  qed
qed


subsection \<open>The initialisation step\<close>

text \<open>
  The initialisation of the contents either raises or returns the allocated array as it
  is; for a shape as input it never raises.
\<close>

lemma init_contents_Inr:
  assumes "init_contents ob init r = Inr res"
  shows "res = r"
  using assms by (auto simp: init_contents_def split: if_splits obj.splits)

lemma init_contents_Sequence: "init_contents (Sequence s) init r = Inr r"
  by (simp add: init_contents_def)

lemma init_contents_False: "init_contents ob False r = Inr r"
  by (simp add: init_contents_def)

lemma constructNumpyArray_Inr:
  assumes "constructNumpyArray ob sd chn isz ord init = Inr res"
  shows "constructNumpyArray_alloc ob sd chn isz ord = Inr res"
proof (cases "constructNumpyArray_alloc ob sd chn isz ord")
  case (Inl e)
  with assms show ?thesis by (simp add: constructNumpyArray_def)
next
  case (Inr r)
  with assms have "init_contents ob init r = Inr res" by (simp add: constructNumpyArray_def)
  from init_contents_Inr [OF this] Inr show ?thesis by simp
qed

lemma constructNumpyArray_Sequence:
  "constructNumpyArray (Sequence s) sd chn isz ord init =
     constructNumpyArray_alloc (Sequence s) sd chn isz ord"
  by (cases "constructNumpyArray_alloc (Sequence s) sd chn isz ord")
    (simp_all add: constructNumpyArray_def init_contents_Sequence)

lemma constructNumpyArray_shape:
  assumes "constructNumpyArray ob sd chn isz ord init = Inr res"
    and "deduce_channels (obj_shape ob) sd chn = Inr ch"
  shows "shape res = pshape (obj_shape ob) sd ch"
  using constructNumpyArray_alloc_shape [OF constructNumpyArray_Inr [OF assms(1)] assms(2)] .

lemma construct_fresh:
  assumes d: "deduce_channels s sd ch = Inr c"
    and tok: "tok \<noteq> OrderA"
    and nonneg: "\<And>d. d \<in> set (pshape s sd c) \<Longrightarrow> 0 \<le> d"
    and ne: "pshape s sd c \<noteq> []"
  shows "constructNumpyArray (Sequence s) sd ch isz tok init =
     Inr \<lparr>shape = pshape s sd c,
          strides =
            (if tok = OrderC then rev (fortran_strides isz (rev (pshape s sd c)))
             else if tok = OrderF \<or> c = 1 then fortran_strides isz (pshape s sd c)
             else fortran_strides
                    (isz * (if last (pshape s sd c) = 0 then 1 else last (pshape s sd c)))
                    (butlast (pshape s sd c)) @ [isz]),
          itemsize = isz\<rparr>"
  unfolding constructNumpyArray_Sequence using d tok nonneg ne by (rule alloc_fresh)

lemmas construct_defs =
  constructNumpyArray_def constructNumpyArray_alloc_def init_contents_def numpy_assignable_def
  strideOrdering_of_def deduce_channels_def obj_shape_def
  obj_strideOrdering_def shapeSize_def pshape_def resolve_auto_def canonical_ordering_def
  py_getitem_def py_setitem_def ndarray_new_F_def ndarray_transpose_def normalize_axis_def
  argsort_def

section \<open>The shape law is an invariant of the pyramid\<close>

text \<open>
  Python's \<^verbatim>\<open>int((k + 1) / 2)\<close> is the rounded-up half, and the rounded-up half of
  \<open>2 * k - 1\<close> is \<open>k\<close> again.
\<close>

lemma ceil_half_eq: "ceil_half k = (k + 1) div 2"
  unfolding ceil_half_def by presburger

lemma ceil_half_double: "ceil_half (2 * k - 1) = k"
  unfolding ceil_half_def by presburger

text \<open>
  A new level of a class has a shape of the class; its spatial extents are those asked
  for, and its channel axis, if any, has the extent of the class.
\<close>

lemma new_from_shape_props:
  assumes "new_from_shape c isz shp = Inr (im :: ('d::zero) image)"
  obtains ch where "deduce_channels shp (spatialDimensions c) (channels c) = Inr ch"
    and "shape (array im) = pshape shp (spatialDimensions c) ch"
    and "cls im = c"
proof -
  from assms obtain a where
    a: "constructNumpyArray (Sequence shp) (spatialDimensions c) (channels c) isz OrderV True = Inr a"
    and im: "im = \<lparr>array = a, cls = c, data = 0\<rparr>"
    by (auto simp: new_from_shape_def split: sum.splits)
  from a obtain ch where
    d: "deduce_channels (obj_shape (Sequence shp)) (spatialDimensions c) (channels c) = Inr ch"
    by (auto simp: constructNumpyArray_def constructNumpyArray_alloc_def split: sum.splits)
  from constructNumpyArray_shape [OF a d] d im that show thesis
    by (simp add: obj_shape_def)
qed

lemma new_from_shape_normal:
  assumes n: "normal_shape c shp"
    and new: "new_from_shape c isz (map f shp) = Inr (im :: ('d::zero) image)"
  shows "level_ok c im"
    and "take (spatialDimensions c) (shape (array im)) = map f (take (spatialDimensions c) shp)"
    and "drop (spatialDimensions c) (shape (array im)) = drop (spatialDimensions c) shp"
proof -
  from new obtain ch where
    d: "deduce_channels (map f shp) (spatialDimensions c) (channels c) = Inr ch"
    and s: "shape (array im) = pshape (map f shp) (spatialDimensions c) ch"
    and c: "cls im = c"
    by (rule new_from_shape_props)
  from n consider
    (single) "channels c = 0 \<or> channels c = 1" "length shp = spatialDimensions c"
  | (multi) "2 \<le> channels c" "length shp = spatialDimensions c + 1" "last shp = channels c"
    by (auto simp: normal_shape_def)
  then have "normal_shape c (shape (array im)) \<and>
      take (spatialDimensions c) (shape (array im)) = map f (take (spatialDimensions c) shp) \<and>
      drop (spatialDimensions c) (shape (array im)) = drop (spatialDimensions c) shp"
  proof cases
    case single
    with d have "ch = 1" by (auto simp: deduce_channels_def split: if_splits)
    with s single show ?thesis
      by (auto simp: pshape_def shapeSize_def normal_shape_def)
  next
    case multi
    with d have ch: "ch = channels c" by (auto simp: deduce_channels_def split: if_splits)
    from multi have ne: "shp \<noteq> []" by auto
    have sh: "shape (array im) = (map f shp)[spatialDimensions c := channels c]"
      using s ch multi by (simp add: pshape_def shapeSize_def)
    have dr: "drop (spatialDimensions c) shp = [channels c]"
    proof -
      have "drop (spatialDimensions c) shp = [last shp]"
        using multi(2) ne
        by (metis Suc_eq_plus1 append_butlast_last_id append_eq_conv_conj length_butlast
            diff_Suc_1)
      with multi show ?thesis by simp
    qed
    have l: "last ((map f shp)[spatialDimensions c := channels c]) = channels c"
      using multi(2) ne by (simp add: last_conv_nth)
    have dr2: "drop (spatialDimensions c) ((map f shp)[spatialDimensions c := channels c]) =
        [channels c]"
      using dr by (simp add: drop_update_swap drop_map)
    show ?thesis
      using sh multi l dr dr2
      by (simp add: normal_shape_def take_map take_update_cancel)
  qed
  with c show "level_ok c im"
    and "take (spatialDimensions c) (shape (array im)) = map f (take (spatialDimensions c) shp)"
    and "drop (spatialDimensions c) (shape (array im)) = drop (spatialDimensions c) shp"
    by (simp_all add: level_ok_def)
qed


text \<open>The two loops of \<^verbatim>\<open>createLevel\<close>: any number of levels upwards, one level downwards.\<close>

lemma grow_up_inv:
  assumes "grow_up n p = (None, p')"
    and "levels p \<noteq> []"
    and "list_all (level_ok c) (levels p)"
    and "successively (halved (spatialDimensions c)) (map (\<lambda>img. shape (array img)) (levels p))"
  shows "list_all (level_ok c) (levels p') \<and>
         successively (halved (spatialDimensions c)) (map (\<lambda>img. shape (array img)) (levels p')) \<and>
         length (levels p') = length (levels p) + n \<and>
         lowestLevel p' = lowestLevel p \<and> highestLevel p' = highestLevel p"
  using assms
proof (induction n arbitrary: p)
  case 0
  then show ?case by simp
next
  case (Suc n)
  let ?img = "last (levels p)"
  from Suc.prems(1,2) obtain im where
    new: "new_from_shape (cls ?img) (itemsize (array ?img))
            (map (\<lambda>k. (k + 1) div 2) (shape (array ?img))) = Inr im"
    and rest: "grow_up n (p\<lparr>levels := levels p @ [im]\<rparr>) = (None, p')"
    by (auto simp: Let_def split: sum.splits)
  from Suc.prems(2,3) have ok: "level_ok c ?img"
    by (simp add: list_all_iff)
  then have cl: "cls ?img = c" and ns: "normal_shape c (shape (array ?img))"
    by (simp_all add: level_ok_def)
  note nf = new_from_shape_normal [OF ns new [unfolded cl]]
  have h: "halved (spatialDimensions c) (shape (array ?img)) (shape (array im))"
    using nf(2,3) by (simp add: halved_def ceil_half_eq [abs_def])
  have s: "successively (halved (spatialDimensions c))
             (map (\<lambda>img. shape (array img)) (levels p @ [im]))"
    using Suc.prems(2,4) h by (simp add: successively_append_iff last_map)
  have "list_all (level_ok c) (levels (p\<lparr>levels := levels p @ [im]\<rparr>))"
    using Suc.prems(3) nf(1) by simp
  from Suc.IH [OF rest _ this] s
  show ?case by simp
qed

lemma grow_down_one_inv:
  assumes "grow_down (Suc 0) (hd (levels p)) p = (None, p')"
    and "levels p \<noteq> []"
    and "list_all (level_ok c) (levels p)"
    and "successively (halved (spatialDimensions c)) (map (\<lambda>img. shape (array img)) (levels p))"
  shows "list_all (level_ok c) (levels p') \<and>
         successively (halved (spatialDimensions c)) (map (\<lambda>img. shape (array img)) (levels p')) \<and>
         length (levels p') = length (levels p) + 1 \<and>
         lowestLevel p' = lowestLevel p \<and> highestLevel p' = highestLevel p \<and>
         doubled (spatialDimensions c) (shape (array (hd (levels p'))))
           (shape (array (hd (levels p))))"
proof -
  let ?img = "hd (levels p)"
  from assms(1) obtain im where
    new: "new_from_shape (cls ?img) (itemsize (array ?img))
            (map (\<lambda>k. 2 * k - 1) (shape (array ?img))) = Inr im"
    and p': "p' = p\<lparr>levels := im # levels p\<rparr>"
    by (auto simp: Let_def split: sum.splits)
  from assms(2,3) have ok: "level_ok c ?img"
    by (cases "levels p") simp_all
  then have cl: "cls ?img = c" and ns: "normal_shape c (shape (array ?img))"
    by (simp_all add: level_ok_def)
  note nf = new_from_shape_normal [OF ns new [unfolded cl]]
  have d: "doubled (spatialDimensions c) (shape (array im)) (shape (array ?img))"
    using nf(2,3) by (simp add: doubled_def)
  have h: "halved (spatialDimensions c) (shape (array im)) (shape (array ?img))"
    using nf(2,3) by (simp add: halved_def ceil_half_double comp_def)
  have s: "successively (halved (spatialDimensions c))
             (map (\<lambda>img. shape (array img)) (im # levels p))"
    using assms(2,4) h by (cases "levels p") simp_all
  show ?thesis
    using p' s d nf(1) assms(3) by simp
qed

lemma createLevel_inv:
  assumes inv: "pyramid_inv c q"
    and cl: "createLevel q level = (None, q')"
    and lo: "lowestLevel q - 1 \<le> level"
  shows "pyramid_inv c q'"
    and "level < lowestLevel q \<Longrightarrow>
         doubled (spatialDimensions c) (shape (array (hd (levels q'))))
           (shape (array (hd (levels q))))"
proof -
  from inv have ne: "levels q \<noteq> []"
    and len: "int (length (levels q)) = highestLevel q - lowestLevel q + 1"
    and ok: "list_all (level_ok c) (levels q)"
    and su: "successively (halved (spatialDimensions c))
               (map (\<lambda>img. shape (array img)) (levels q))"
    by (simp_all add: pyramid_inv_def)
  from len ne have rng: "lowestLevel q \<le> highestLevel q" by (cases "levels q") auto
  consider (up) "level > highestLevel q" | (down) "level < lowestLevel q"
    | (same) "lowestLevel q \<le> level" "level \<le> highestLevel q"
    by linarith
  then have "pyramid_inv c q' \<and> (level < lowestLevel q \<longrightarrow>
         doubled (spatialDimensions c) (shape (array (hd (levels q'))))
           (shape (array (hd (levels q)))))"
  proof cases
    case up
    with cl obtain p' where g: "grow_up (nat (level - highestLevel q)) q = (None, p')"
      and q': "q' = p'\<lparr>highestLevel := level\<rparr>"
      by (auto simp: createLevel_def split: prod.splits option.splits)
    from grow_up_inv [OF g ne ok su] q' len up rng ne
    show ?thesis by (auto simp: pyramid_inv_def)
  next
    case down
    with lo have n: "nat (lowestLevel q - level) = Suc 0" by simp
    from down rng have "\<not> level > highestLevel q" by simp
    with cl down ne n obtain p' where
      g: "grow_down (Suc 0) (hd (levels q)) q = (None, p')"
      and q': "q' = p'\<lparr>lowestLevel := level\<rparr>"
      by (auto simp: createLevel_def split: prod.splits option.splits)
    from grow_down_one_inv [OF g ne ok su] q' len down lo
    show ?thesis by (auto simp: pyramid_inv_def)
  next
    case same
    with cl have "q' = q" by (simp add: createLevel_def)
    with inv same show ?thesis by simp
  qed
  then show "pyramid_inv c q'"
    and "level < lowestLevel q \<Longrightarrow>
         doubled (spatialDimensions c) (shape (array (hd (levels q'))))
           (shape (array (hd (levels q))))"
    by simp_all
qed

lemma new_from_image_normal:
  assumes "new_from_image img = Inr im"
  shows "level_ok (cls img) im \<longleftrightarrow> normal_shape (cls img) (shape (array img))"
    and "shape (array im) = shape (array img)"
  using assms
  by (auto simp: new_from_image_def assign_contents_def level_ok_def split: sum.splits if_splits)

lemma init_inv:
  assumes i: "ImagePyramid_init img cp lo hi = Inr p"
    and n: "normal_shape (cls img) (shape (array img))"
    and l: "cp - 1 \<le> lo"
  shows "pyramid_inv (cls img) p"
proof -
  from i obtain im p1 where
    im: "new_from_image img = Inr im"
    and c1: "createLevel \<lparr>levels = [im], lowestLevel = cp, highestLevel = cp\<rparr> lo = (None, p1)"
    and c2: "createLevel p1 hi = (None, p)"
    and r: "lo \<le> cp" "cp \<le> hi"
    by (auto simp: ImagePyramid_init_def split: if_splits sum.splits prod.splits option.splits)
  have i0: "pyramid_inv (cls img) \<lparr>levels = [im], lowestLevel = cp, highestLevel = cp\<rparr>"
    using new_from_image_normal [OF im] n by (simp add: pyramid_inv_def)
  have i1: "pyramid_inv (cls img) p1"
    by (rule createLevel_inv(1) [OF i0 c1]) (use l in simp)
  have lo1: "lowestLevel p1 = lo"
    using c1 r l
    by (auto simp: createLevel_def Let_def split: if_splits prod.splits option.splits sum.splits)
  show ?thesis
    by (rule createLevel_inv(1) [OF i1 c2]) (use lo1 r in simp)
qed


section \<open>The contents after the Laplacian loops\<close>

lemma reduced_shift:
  "reduced nm c (subsample nm (convolve nm c d)) n = reduced nm c d (Suc n)"
  by (induction n) simp_all

lemma grow_up_levels:
  "grow_up n p = (None, p') \<Longrightarrow>
   \<exists>ys. levels p' = levels p @ ys \<and> lowestLevel p' = lowestLevel p"
proof (induction n arbitrary: p)
  case 0
  then show ?case by simp
next
  case (Suc n)
  from Suc.prems obtain im where
    rest: "grow_up n (p\<lparr>levels := levels p @ [im]\<rparr>) = (None, p')"
    by (auto simp: Let_def split: sum.splits if_splits)
  from Suc.IH [OF rest] show ?case by auto
qed

text \<open>What a successful access to a level, and a successful assignment to it, tell.\<close>

lemma pyramid_getitem_Inr:
  "pyramid_getitem p k = Inr im \<Longrightarrow>
   lowestLevel p \<le> k \<and> k \<le> highestLevel p \<and> nat (k - lowestLevel p) < length (levels p) \<and>
   im = levels p ! nat (k - lowestLevel p)"
  by (auto simp: pyramid_getitem_def py_getitem_def split: if_splits)

lemma pyramid_setitem_None:
  assumes "pyramid_setitem p k shp d = (None, p')"
  shows "lowestLevel p' = lowestLevel p" "highestLevel p' = highestLevel p"
    "length (levels p') = length (levels p)"
    "lowestLevel p \<le> k" "nat (k - lowestLevel p) < length (levels p)"
    "level_data p' k = d"
    "\<And>j. lowestLevel p \<le> j \<Longrightarrow> j \<noteq> k \<Longrightarrow> level_data p' j = level_data p j"
    "\<And>j. lowestLevel p \<le> j \<Longrightarrow> j \<noteq> k \<Longrightarrow>
       shape (array (levels p' ! nat (j - lowestLevel p))) =
       shape (array (levels p ! nat (j - lowestLevel p)))"
    "pyramid_getitem p' = (\<lambda>j. map_sum id (\<lambda>im. if j = k then im\<lparr>data := d\<rparr> else im) (pyramid_getitem p j))"
proof -
  from assms obtain dest where
    g: "pyramid_getitem p k = Inr dest"
    and p': "p' = p\<lparr>levels := (levels p)[nat (k - lowestLevel p) := dest\<lparr>data := d\<rparr>]\<rparr>"
    by (auto simp: pyramid_setitem_def assign_contents_def split: sum.splits if_splits)
  note gi = pyramid_getitem_Inr [OF g]
  show "lowestLevel p' = lowestLevel p" "highestLevel p' = highestLevel p"
    "length (levels p') = length (levels p)"
    "lowestLevel p \<le> k" "nat (k - lowestLevel p) < length (levels p)"
    using p' gi by simp_all
  show "level_data p' k = d"
    using p' gi by (simp add: level_data_def)
  show "level_data p' j = level_data p j" if "lowestLevel p \<le> j" "j \<noteq> k" for j
  proof -
    from that gi have "nat (k - lowestLevel p) \<noteq> nat (j - lowestLevel p)" by auto
    then show ?thesis using p' by (simp add: level_data_def)
  qed
  show "shape (array (levels p' ! nat (j - lowestLevel p))) =
       shape (array (levels p ! nat (j - lowestLevel p)))" if "lowestLevel p \<le> j" "j \<noteq> k" for j
  proof -
    from that gi have "nat (k - lowestLevel p) \<noteq> nat (j - lowestLevel p)" by auto
    then show ?thesis using p' by simp
  qed
  show "pyramid_getitem p' = (\<lambda>j. map_sum id (\<lambda>im. if j = k then im\<lparr>data := d\<rparr> else im) (pyramid_getitem p j))"
  proof
    fix j
    show "pyramid_getitem p' j = map_sum id (\<lambda>im. if j = k then im\<lparr>data := d\<rparr> else im) (pyramid_getitem p j)"
    proof (cases "j = k")
      case True
      then show ?thesis using p' gi g by (simp add: pyramid_getitem_def py_getitem_def)
    next
      case False
      show ?thesis
      proof (cases "lowestLevel p \<le> j")
        case True
        with False gi have "nat (k - lowestLevel p) \<noteq> nat (j - lowestLevel p)" by auto
        then show ?thesis using p' False by (simp add: pyramid_getitem_def py_getitem_def)
      next
        case False
        then show ?thesis using p' by (simp add: pyramid_getitem_def)
      qed
    qed
  qed
qed

text \<open>One pass of the loop of \<^verbatim>\<open>reduceLaplacian\<close>, and the whole loop.\<close>

lemma reduceLaplacian_step_None:
  assumes "reduceLaplacian_step nm c p k = (None, p')"
  shows "lowestLevel p' = lowestLevel p"
    and "lowestLevel p \<le> k"
    and "level_data p' (k + 1) = subsample nm (convolve nm c (level_data p k))"
    and "level_data p' k =
           expandImpl nm c (subsample nm (convolve nm c (level_data p k)))
             (convolve nm c (level_data p k)) - level_data p k"
    and "\<And>j. lowestLevel p \<le> j \<Longrightarrow> j < k \<Longrightarrow> level_data p' j = level_data p j"
proof -
  let ?i = "convolve nm c (level_data p k)"
  from assms obtain src shp p1 coarse cur where
    g: "pyramid_getitem p k = Inr src"
    and s1: "pyramid_setitem p (k + 1) shp (subsample nm (convolve nm c (data src))) = (None, p1)"
    and g1: "pyramid_getitem p1 (k + 1) = Inr coarse"
    and g2: "pyramid_getitem p1 k = Inr cur"
    and s2: "pyramid_setitem p1 k (shape (array src))
               (expandImpl nm c (data coarse) (convolve nm c (data src)) - data cur) = (None, p')"
    by (auto simp: reduceLaplacian_step_def Let_def split: sum.splits prod.splits option.splits)
  note gi = pyramid_getitem_Inr [OF g]
  from gi have src: "data src = level_data p k" by (simp add: level_data_def)
  note a = pyramid_setitem_None [OF s1]
  note b = pyramid_setitem_None [OF s2]
  from pyramid_getitem_Inr [OF g1] a(1) have co: "data coarse = level_data p1 (k + 1)"
    by (simp add: level_data_def)
  from pyramid_getitem_Inr [OF g2] a(1) have cu: "data cur = level_data p1 k"
    by (simp add: level_data_def)
  have c1: "level_data p1 (k + 1) = subsample nm ?i" using a(6) src by simp
  have c2: "level_data p1 k = level_data p k" using a(7) [of k] gi by simp
  show "lowestLevel p' = lowestLevel p" using a(1) b(1) by simp
  show "lowestLevel p \<le> k" using gi by simp
  show "level_data p' (k + 1) = subsample nm ?i"
    using b(7) [of "k + 1"] a(1) gi c1 by simp
  show "level_data p' k = expandImpl nm c (subsample nm ?i) ?i - level_data p k"
    using b(6) co cu c1 c2 src by simp
  show "level_data p' j = level_data p j" if "lowestLevel p \<le> j" "j < k" for j
    using b(7) [of j] a(7) [of j] a(1) that by simp
qed

lemma reduceLaplacian_loop:
  assumes "for_levels (reduceLaplacian_step nm c) [a..b] q = (None, q')"
    and "lowestLevel q \<le> a"
  shows "lowestLevel q' = lowestLevel q \<and>
     (\<forall>k. a \<le> k \<and> k \<le> b \<longrightarrow>
        level_data q' k =
          expandImpl nm c (reduced nm c (level_data q a) (nat (k + 1 - a)))
            (convolve nm c (reduced nm c (level_data q a) (nat (k - a)))) -
          reduced nm c (level_data q a) (nat (k - a))) \<and>
     (a \<le> b + 1 \<longrightarrow> level_data q' (b + 1) = reduced nm c (level_data q a) (nat (b + 1 - a))) \<and>
     (\<forall>j. lowestLevel q \<le> j \<and> j < a \<longrightarrow> level_data q' j = level_data q j)"
  using assms
proof (induction "nat (b + 1 - a)" arbitrary: a q)
  case 0
  then have "[a..b] = []" by simp
  with "0.prems" have "q' = q" by simp
  with 0 show ?case by auto
next
  case (Suc n)
  then have ab: "a \<le> b" by linarith
  then have l: "[a..b] = a # [a + 1..b]" by (rule upto_rec1)
  from Suc.prems(1) l obtain q1 where
    st: "reduceLaplacian_step nm c q a = (None, q1)"
    and rest: "for_levels (reduceLaplacian_step nm c) [a + 1..b] q1 = (None, q')"
    by (auto split: prod.splits option.splits)
  note s = reduceLaplacian_step_None [OF st]
  have n: "n = nat (b + 1 - (a + 1))" using Suc.hyps(2) by linarith
  have lo: "lowestLevel q1 \<le> a + 1" using s(1,2) by simp
  note ih = Suc.hyps(1) [OF n rest lo]
  let ?R = "reduced nm c (level_data q a)"
  have r1: "reduced nm c (level_data q1 (a + 1)) m = ?R (Suc m)" for m
    using s(3) by (simp add: reduced_shift)
  have lo': "lowestLevel q' = lowestLevel q" using ih s(1) by simp
  have mid: "level_data q' k =
          expandImpl nm c (?R (nat (k + 1 - a))) (convolve nm c (?R (nat (k - a)))) -
          ?R (nat (k - a))" if "a \<le> k" "k \<le> b" for k
  proof (cases "k = a")
    case True
    have "level_data q' a = level_data q1 a" using ih s(1,2) by simp
    with s(4) True show ?thesis by simp
  next
    case False
    with that have k: "a + 1 \<le> k" by simp
    then have e1: "Suc (nat (k + 1 - (a + 1))) = nat (k + 1 - a)"
      and e2: "Suc (nat (k - (a + 1))) = nat (k - a)" by linarith+
    from ih k that have "level_data q' k =
       expandImpl nm c (reduced nm c (level_data q1 (a + 1)) (nat (k + 1 - (a + 1))))
         (convolve nm c (reduced nm c (level_data q1 (a + 1)) (nat (k - (a + 1))))) -
       reduced nm c (level_data q1 (a + 1)) (nat (k - (a + 1)))" by blast
    then show ?thesis unfolding r1 e1 e2 .
  qed
  have top: "level_data q' (b + 1) = ?R (nat (b + 1 - a))"
  proof -
    have e: "Suc (nat (b + 1 - (a + 1))) = nat (b + 1 - a)" using ab by linarith
    from ih ab have "level_data q' (b + 1) =
       reduced nm c (level_data q1 (a + 1)) (nat (b + 1 - (a + 1)))" by simp
    then show ?thesis unfolding r1 e .
  qed
  have low: "level_data q' j = level_data q j" if "lowestLevel q \<le> j" "j < a" for j
  proof -
    from ih that s(1) have "level_data q' j = level_data q1 j" by simp
    with s(5) [OF that] show ?thesis by simp
  qed
  from lo' mid top low show ?case by blast
qed

lemma createLevel_upward:
  assumes "createLevel p level = (None, p')"
    and "lowestLevel p \<le> level"
  shows "lowestLevel p' = lowestLevel p"
    and "\<exists>ys. levels p' = levels p @ ys"
proof -
  have "lowestLevel p' = lowestLevel p \<and> (\<exists>ys. levels p' = levels p @ ys)"
  proof (cases "level > highestLevel p")
    case True
    with assms(1) obtain p1 where g: "grow_up (nat (level - highestLevel p)) p = (None, p1)"
      and p': "p' = p1\<lparr>highestLevel := level\<rparr>"
      by (auto simp: createLevel_def split: prod.splits option.splits)
    from grow_up_levels [OF g] p' show ?thesis by auto
  next
    case False
    with assms have "p' = p" by (simp add: createLevel_def)
    then show ?thesis by simp
  qed
  then show "lowestLevel p' = lowestLevel p" and "\<exists>ys. levels p' = levels p @ ys" by simp_all
qed

lemma reduceLaplacian_contents:
  assumes r: "reduceLaplacian nm p srcLevel destLevel c = (None, p')"
    and wf: "int (length (levels p)) = highestLevel p - lowestLevel p + 1"
  shows "(\<forall>k. srcLevel \<le> k \<and> k < destLevel \<longrightarrow>
        level_data p' k =
          expandImpl nm c (reduced nm c (level_data p srcLevel) (nat (k + 1 - srcLevel)))
            (convolve nm c (reduced nm c (level_data p srcLevel) (nat (k - srcLevel)))) -
          reduced nm c (level_data p srcLevel) (nat (k - srcLevel))) \<and>
     level_data p' destLevel = reduced nm c (level_data p srcLevel) (nat (destLevel - srcLevel))"
proof -
  from r obtain p1 where
    sd: "srcLevel \<le> destLevel" and rng: "lowestLevel p \<le> srcLevel" "srcLevel \<le> highestLevel p"
    and cl: "createLevel p destLevel = (None, p1)"
    and lp: "for_levels (reduceLaplacian_step nm c) [srcLevel..destLevel - 1] p1 = (None, p')"
    by (auto simp: reduceLaplacian_def split: if_splits prod.splits option.splits)
  from sd rng have "lowestLevel p \<le> destLevel" by simp
  note cu = createLevel_upward [OF cl this]
  from wf rng have "nat (srcLevel - lowestLevel p) < length (levels p)" by linarith
  with cu have src: "level_data p1 srcLevel = level_data p srcLevel"
    by (auto simp: level_data_def nth_append)
  from cu(1) rng have lo: "lowestLevel p1 \<le> srcLevel" by simp
  from reduceLaplacian_loop [OF lp lo] sd show ?thesis
    unfolding src by simp
qed

text \<open>One pass of the loop of \<^verbatim>\<open>expandLaplacian\<close>, and the whole loop.\<close>

lemma expandLaplacian_step_None:
  assumes "expandLaplacian_step nm c p k = (None, p')"
  shows "lowestLevel p' = lowestLevel p"
    and "lowestLevel p \<le> k - 1"
    and "level_data p' (k - 1) = expandImpl nm c (level_data p k) 0 - level_data p (k - 1)"
    and "\<And>j. lowestLevel p \<le> j \<Longrightarrow> j \<noteq> k - 1 \<Longrightarrow> level_data p' j = level_data p j"
proof -
  from assms obtain fine i coarse where
    g: "pyramid_getitem p (k - 1) = Inr fine"
    and n: "new_from_shape (cls fine) (itemsize (array fine)) (shape (array fine)) = Inr i"
    and g1: "pyramid_getitem p k = Inr coarse"
    and s: "pyramid_setitem p (k - 1) (shape (array i))
              (expandImpl nm c (data coarse) (data i) - data fine) = (None, p')"
    by (auto simp: expandLaplacian_step_def Let_def split: sum.splits)
  from n have i0: "data i = 0" by (auto simp: new_from_shape_def split: sum.splits)
  from pyramid_getitem_Inr [OF g] have f: "data fine = level_data p (k - 1)"
    and lo: "lowestLevel p \<le> k - 1" by (simp_all add: level_data_def)
  from pyramid_getitem_Inr [OF g1] have co: "data coarse = level_data p k"
    by (simp add: level_data_def)
  note b = pyramid_setitem_None [OF s]
  show "lowestLevel p' = lowestLevel p" using b(1) .
  show "lowestLevel p \<le> k - 1" using lo .
  show "level_data p' (k - 1) = expandImpl nm c (level_data p k) 0 - level_data p (k - 1)"
    using b(6) i0 f co by simp
  show "level_data p' j = level_data p j" if "lowestLevel p \<le> j" "j \<noteq> k - 1" for j
    using b(7) [OF that] .
qed

lemma expandLaplacian_loop:
  assumes "for_levels (expandLaplacian_step nm c) (rev [d + 1..s]) q = (None, q')"
    and "lowestLevel q \<le> d"
  shows "lowestLevel q' = lowestLevel q \<and>
     (\<forall>j. lowestLevel q \<le> j \<and> (j < d \<or> s \<le> j) \<longrightarrow> level_data q' j = level_data q j) \<and>
     (\<forall>k. d \<le> k \<and> k < s \<longrightarrow>
        level_data q' k = expandImpl nm c (level_data q' (k + 1)) 0 - level_data q k)"
  using assms
proof (induction "nat (s - d)" arbitrary: s q)
  case 0
  then have "[d + 1..s] = []" by simp
  with "0.prems" have "q' = q" by simp
  with 0 show ?case by auto
next
  case (Suc n)
  then have ds: "d + 1 \<le> s" by linarith
  then have l: "rev [d + 1..s] = s # rev [d + 1..s - 1]" by (simp add: upto_rec2)
  from Suc.prems(1) l obtain q1 where
    st: "expandLaplacian_step nm c q s = (None, q1)"
    and rest: "for_levels (expandLaplacian_step nm c) (rev [d + 1..s - 1]) q1 = (None, q')"
    by (auto split: prod.splits option.splits)
  note e = expandLaplacian_step_None [OF st]
  have n: "n = nat (s - 1 - d)" using Suc.hyps(2) by linarith
  have lo: "lowestLevel q1 \<le> d" using e(1) Suc.prems(2) by simp
  note ih = Suc.hyps(1) [OF n rest lo]
  have lo': "lowestLevel q' = lowestLevel q" using ih e(1) by simp
  have frame: "level_data q' j = level_data q j"
    if "lowestLevel q \<le> j" "j < d \<or> s \<le> j" for j
  proof -
    from that ds have "j \<noteq> s - 1" by linarith
    from e(4) [OF that(1) this] have "level_data q1 j = level_data q j" .
    moreover have "level_data q' j = level_data q1 j"
    proof -
      from that have "lowestLevel q1 \<le> j \<and> (j < d \<or> s - 1 \<le> j)" using e(1) by linarith
      with ih show ?thesis by blast
    qed
    ultimately show ?thesis by simp
  qed
  have mid: "level_data q' k = expandImpl nm c (level_data q' (k + 1)) 0 - level_data q k"
    if "d \<le> k" "k < s" for k
  proof (cases "k = s - 1")
    case True
    from Suc.prems(2) that ds have los: "lowestLevel q \<le> s" "lowestLevel q \<le> s - 1" by linarith+
    have a: "level_data q' (s - 1) = level_data q1 (s - 1)" using ih e(1) los by simp
    have b: "level_data q' s = level_data q s" using frame [of s] los by simp
    from e(3) a b True show ?thesis by simp
  next
    case False
    with that have k: "k < s - 1" by simp
    from Suc.prems(2) that have "lowestLevel q \<le> k" by simp
    from e(4) [OF this False] have "level_data q1 k = level_data q k" .
    with ih that k show ?thesis by simp
  qed
  from lo' frame mid show ?case by blast
qed

lemma expandLaplacian_contents:
  assumes r: "expandLaplacian nm p srcLevel destLevel c = (None, p')"
    and lo: "lowestLevel p \<le> destLevel"
  shows "level_data p' srcLevel = level_data p srcLevel \<and>
     (\<forall>k. destLevel \<le> k \<and> k < srcLevel \<longrightarrow>
        level_data p' k = expandImpl nm c (level_data p' (k + 1)) 0 - level_data p k)"
proof -
  from r obtain p1 where
    sd: "destLevel \<le> srcLevel" and rng: "lowestLevel p \<le> srcLevel" "srcLevel \<le> highestLevel p"
    and cl: "createLevel p destLevel = (None, p1)"
    and lp: "for_levels (expandLaplacian_step nm c) (rev [destLevel + 1..srcLevel]) p1 = (None, p')"
    by (auto simp: expandLaplacian_def split: if_splits prod.splits option.splits)
  from cl lo sd rng have "p1 = p" by (simp add: createLevel_def)
  with lp have lp': "for_levels (expandLaplacian_step nm c) (rev [destLevel + 1..srcLevel]) p = (None, p')"
    by simp
  from expandLaplacian_loop [OF lp' lo] rng show ?thesis by simp
qed


section \<open>Where the number of tags follows the number of axes\<close>

text \<open>
  The operations below keep the invariant \<open>tags_ok\<close>: a reduction along an axis,
  \<^verbatim>\<open>squeeze\<close>, \<^verbatim>\<open>reshape\<close>, \<^verbatim>\<open>ravel\<close>, \<^verbatim>\<open>flatten\<close>, \<^verbatim>\<open>swapaxes\<close>, \<^verbatim>\<open>transpose\<close>,
  \<^verbatim>\<open>repeat\<close>, \<^verbatim>\<open>take\<close> without an axis or with a one-dimensional array of indices, and
  indexing.
\<close>

lemma tags_delitem_length:
  "tags_delitem tags k = Inr tags' \<Longrightarrow> Suc (length tags') = length tags"
  by (auto simp: tags_delitem_def py_index_def Let_def split: sum.splits if_splits)

lemma reduction_tags_ok:
  assumes "reduction self (Some k) = Inr res" and "tags_ok self"
  shows "tags_ok res"
proof -
  from assms(1) obtain shp tags tags' where
    s: "numpy_reduce_shape (vshape self) (Some k) = Inr shp"
    and t: "axistags self = Some tags" "tags_delitem tags k = Inr tags'"
    and r: "res = \<lparr>vshape = shp, axistags = Some tags'\<rparr>"
    by (auto simp: reduction_def drop_axis_tag_def finalize_def Let_def
        split: sum.splits option.splits)
  from s have "Suc (length shp) = length (vshape self)"
    by (auto simp: numpy_reduce_shape_def Let_def split: if_splits)
  moreover from tags_delitem_length [OF t(2)] assms(2) t(1)
  have "Suc (length tags') = length (vshape self)" by (simp add: tags_ok_def)
  ultimately show ?thesis using r by (simp add: tags_ok_def)
qed

lemma squeeze_tags_length:
  "m \<le> length shp \<Longrightarrow> m \<le> length tags \<Longrightarrow>
   \<exists>tags'. squeeze_tags shp (rev [0..<m]) tags = Inr tags' \<and>
     length tags' + length (filter (\<lambda>d. d = 1) (take m shp)) = length tags"
proof (induction m arbitrary: tags)
  case 0
  then show ?case by simp
next
  case (Suc m)
  have tk: "take (Suc m) shp = take m shp @ [shp ! m]"
    using Suc.prems(1) by (simp add: take_Suc_conv_app_nth)
  show ?case
  proof (cases "shp ! m = 1")
    case True
    from Suc.prems(2) have d: "tags_delitem tags (int m) = Inr (take m tags @ drop (Suc m) tags)"
      by (simp add: tags_delitem_def py_index_def)
    let ?t = "take m tags @ drop (Suc m) tags"
    have l: "Suc (length ?t) = length tags" using Suc.prems(2) by simp
    from Suc.IH [of ?t] Suc.prems l obtain tags' where
      "squeeze_tags shp (rev [0..<m]) ?t = Inr tags'"
      "length tags' + length (filter (\<lambda>d. d = 1) (take m shp)) = length ?t"
      by auto
    with True d tk l show ?thesis by simp
  next
    case False
    from Suc.IH [of tags] Suc.prems obtain tags' where
      "squeeze_tags shp (rev [0..<m]) tags = Inr tags'"
      "length tags' + length (filter (\<lambda>d. d = 1) (take m shp)) = length tags"
      by auto
    with False tk show ?thesis by simp
  qed
qed

lemma squeeze_tags_ok:
  assumes "squeeze self = Inr res" and "tags_ok self"
  shows "tags_ok res"
proof (cases "axistags self")
  case None
  with assms(1) show ?thesis
    by (auto simp: squeeze_def finalize_def Let_def tags_ok_def split: if_splits)
next
  case (Some tags)
  with assms(2) have len: "length tags = length (vshape self)" by (simp add: tags_ok_def)
  let ?shp = "vshape self"
  from squeeze_tags_length [of "length ?shp" ?shp tags] len obtain tags' where
    st: "squeeze_tags ?shp (rev [0..<length ?shp]) tags = Inr tags'"
    and l: "length tags' + length (filter (\<lambda>d. d = 1) ?shp) = length ?shp"
    by auto
  have "length (filter (\<lambda>d. d = 1) ?shp) + length (filter (\<lambda>d. d \<noteq> 1) ?shp) = length ?shp"
    using sum_length_filter_compl [of "\<lambda>d. d = 1" ?shp] by simp
  with l have l': "length tags' = length (filter (\<lambda>d. d \<noteq> 1) ?shp)" by simp
  show ?thesis
  proof (cases "length ?shp = length (filter (\<lambda>d. d \<noteq> 1) ?shp)")
    case True
    with assms(1) Some have "res = \<lparr>vshape = filter (\<lambda>d. d \<noteq> 1) ?shp, axistags = Some tags\<rparr>"
      by (simp add: squeeze_def finalize_def Let_def)
    with True len show ?thesis by (simp add: tags_ok_def)
  next
    case False
    with assms(1) Some st have "res = \<lparr>vshape = filter (\<lambda>d. d \<noteq> 1) ?shp, axistags = Some tags'\<rparr>"
      by (simp add: squeeze_def finalize_def Let_def)
    with l' show ?thesis by (simp add: tags_ok_def)
  qed
qed

lemma reshape_tags_ok: "reshape self new = Inr res \<Longrightarrow> tags_ok res"
  by (auto simp: reshape_def finalize_def tags_ok_def unknown_tags_def split: sum.splits)

lemma ravel_tags_ok: "tags_ok (ravel self)"
  by (simp add: ravel_def finalize_def tags_ok_def unknown_tags_def)

lemma flatten_tags_ok: "flatten sd self = Inr res \<Longrightarrow> tags_ok res"
  by (auto simp: flatten_def finalize_def tags_ok_def unknown_tags_def split: sum.splits)

lemma tags_setitem_length: "tags_setitem tags k v = Inr tags' \<Longrightarrow> length tags' = length tags"
  by (auto simp: tags_setitem_def split: sum.splits)

lemma swapaxes_tags_ok:
  assumes "swapaxes self i j = Inr res" and "tags_ok self"
  shows "tags_ok res"
proof -
  from assms(1) obtain shp where s: "numpy_swapaxes_shape (vshape self) i j = Inr shp"
    by (auto simp: swapaxes_def split: sum.splits)
  then have l: "length shp = length (vshape self)"
    by (auto simp: numpy_swapaxes_shape_def Let_def split: if_splits)
  show ?thesis
  proof (cases "axistags self")
    case None
    with assms(1) s show ?thesis
      by (auto simp: swapaxes_def finalize_def Let_def tags_ok_def)
  next
    case (Some tags)
    with assms(1) s obtain tj ti t1 t2 where
      "tags_setitem tags i tj = Inr t1" "tags_setitem t1 j ti = Inr t2"
      and r: "res = \<lparr>vshape = shp, axistags = Some t2\<rparr>"
      by (auto simp: swapaxes_def finalize_def Let_def split: sum.splits)
    then have "length t2 = length tags" by (auto dest!: tags_setitem_length)
    with r l assms(2) Some show ?thesis by (simp add: tags_ok_def)
  qed
qed

lemma tags_permute_length: "tags_permute tags ks = Inr ts \<Longrightarrow> length ts = length ks"
  by (induction ks arbitrary: ts) (auto split: sum.splits)

lemma transpose_tags_ok:
  assumes "transpose_array self axes = Inr res" and "tags_ok self"
  shows "tags_ok res"
proof -
  from assms(1) obtain shp where s: "numpy_transpose_shape (vshape self) axes = Inr shp"
    by (auto simp: transpose_array_def split: sum.splits)
  show ?thesis
  proof (cases "axistags self")
    case None
    with assms(1) s show ?thesis
      by (auto simp: transpose_array_def finalize_def Let_def tags_ok_def)
  next
    case (Some tags)
    with assms(1) s obtain t' where t: "tags_transpose tags axes = Inr t'"
      and r: "res = \<lparr>vshape = shp, axistags = Some t'\<rparr>"
      by (auto simp: transpose_array_def finalize_def Let_def split: sum.splits)
    from assms(2) Some have len: "length tags = length (vshape self)" by (simp add: tags_ok_def)
    have "length t' = length shp"
    proof (cases axes)
      case None
      with t s len show ?thesis by (auto simp: tags_transpose_def numpy_transpose_shape_def)
    next
      case (Some ax)
      with t have "length t' = length ax"
        by (auto simp: tags_transpose_def dest: tags_permute_length)
      moreover from Some s have "length shp = length ax"
        by (auto simp: numpy_transpose_shape_def Let_def split: if_splits)
      ultimately show ?thesis by simp
    qed
    with r show ?thesis by (simp add: tags_ok_def)
  qed
qed

lemma repeat_tags_ok:
  assumes "repeat self repeats axis = Inr res" and "tags_ok self"
  shows "tags_ok res"
  using assms
  by (auto simp: repeat_def numpy_repeat_shape_def finalize_def Let_def tags_ok_def
      unknown_tags_def split: sum.splits if_splits option.splits)

lemma take_tags_ok:
  assumes "take_array self ishape axis = Inr res" and "tags_ok self"
    and "axis = None \<or> length ishape = 1"
  shows "tags_ok res"
  using assms
  by (auto simp: take_array_def numpy_take_shape_def finalize_def Let_def tags_ok_def
      unknown_tags_def split: sum.splits if_splits option.splits)

lemma transform_items_length:
  "basic_shape shp items e = Inr s \<Longrightarrow> length tags = length shp \<Longrightarrow>
   length (transform_items tags items e) = length s"
proof (induction shp items e arbitrary: s tags rule: basic_shape.induct)
  case (1 shp e)
  then show ?case by simp
next
  case (2 shp i items e)
  then show ?case by (cases shp) (auto split: if_splits)
next
  case (3 shp a b c items e)
  then show ?case by (cases shp; cases tags) (auto split: sum.splits)
next
  case (4 shp items e)
  then show ?case by (auto split: sum.splits)
next
  case (5 shp items e)
  then show ?case by (auto split: sum.splits if_splits)
qed

lemma getitem_tags_ok:
  assumes "getitem self idx = Inr (ArrayResult res)" and "tags_ok self"
  shows "tags_ok res"
proof (cases "axistags self")
  case None
  with assms(1) show ?thesis
    by (auto simp: getitem_def finalize_def Let_def tags_ok_def
        split: sum.splits numpy_item.splits)
next
  case (Some tags)
  with assms(2) have len: "length tags = length (vshape self)" by (simp add: tags_ok_def)
  from assms(1) obtain it where n: "numpy_getitem (vshape self) idx = Inr it"
    by (auto simp: getitem_def split: sum.splits)
  show ?thesis
  proof (cases it)
    case NpSelf
    with assms n show ?thesis by (simp add: getitem_def)
  next
    case NpValue
    with assms n show ?thesis by (simp add: getitem_def)
  next
    case (NpView shp)
    with n obtain items where idx: "idx = Basic items"
      and b: "basic_shape (vshape self) items (nat (ellipsis_length (length (vshape self)) items)) = Inr shp"
      by (cases idx) (auto simp: numpy_getitem_def split: if_splits sum.splits)
    from transform_items_length [OF b len] len
    have "length (tags_transform tags idx (length shp)) = length shp"
      by (simp add: tags_transform_def idx)
    with assms(1) n NpView Some show ?thesis
      by (auto simp: getitem_def finalize_def Let_def tags_ok_def)
  next
    case (NpCopy shp)
    with assms(1) n Some show ?thesis
      by (auto simp: getitem_def finalize_def Let_def tags_ok_def unknown_tags_def)
  qed
qed


section \<open>Concrete layouts\<close>

text \<open>
  C9. A 3-channel array of spatial shape 4 x 3 constructed with the token \<^verbatim>\<open>'V'\<close> has the
  strides (3, 12, 1) in units of one element: whatever the element size \<open>isz\<close>, the
  byte strides are \<open>(3 * isz, 12 * isz, isz)\<close>, for the shape given with or without its
  channel axis, and whether or not the contents are initialised; the channel axis is the
  innermost one.
\<close>

theorem channel_major_strides_4x3x3:
  "constructNumpyArray (Sequence [4, 3]) 2 3 isz OrderV init =
     Inr \<lparr>shape = [4, 3, 3], strides = [3 * isz, 12 * isz, isz], itemsize = isz\<rparr> \<and>
   constructNumpyArray (Sequence [4, 3, 3]) 2 3 isz OrderV init =
     Inr \<lparr>shape = [4, 3, 3], strides = [3 * isz, 12 * isz, isz], itemsize = isz\<rparr> \<and>
   constructNumpyArray (Sequence [4, 3, 3]) 2 0 isz OrderV init =
     Inr \<lparr>shape = [4, 3, 3], strides = [3 * isz, 12 * isz, isz], itemsize = isz\<rparr>"
  by (simp add: constructNumpyArray_def constructNumpyArray_alloc_def init_contents_def
      strideOrdering_of_def deduce_channels_def
      obj_shape_def obj_strideOrdering_def shapeSize_def pshape_def resolve_auto_def
      canonical_ordering_def py_getitem_def py_setitem_def ndarray_new_F_def
      ndarray_transpose_def normalize_axis_def upt_rec numeral_2_eq_2 numeral_3_eq_3)

section \<open>Round trip of the order token\<close>

text \<open>
  C2, as stated, fails: an array can be contiguous in more than one order, and \<^verbatim>\<open>order\<close>
  tests C-contiguity first. A single-channel image of one pixel constructed with the token
  \<^verbatim>\<open>'F'\<close> reports \<^verbatim>\<open>'C'\<close>, and so does a 3-channel image of one pixel constructed with
  the token \<^verbatim>\<open>'V'\<close>.
\<close>

theorem order_roundtrip_counterexample:
  "constructNumpyArray (Sequence [1, 1]) 2 1 4 OrderF True =
     Inr \<lparr>shape = [1, 1], strides = [4, 4], itemsize = 4\<rparr> \<and>
   order 2 \<lparr>shape = [1, 1], strides = [4, 4], itemsize = 4\<rparr> = OrderC \<and>
   constructNumpyArray (Sequence [1, 1]) 2 3 4 OrderV True =
     Inr \<lparr>shape = [1, 1, 3], strides = [12, 12, 4], itemsize = 4\<rparr> \<and>
   order 2 \<lparr>shape = [1, 1, 3], strides = [12, 12, 4], itemsize = 4\<rparr> = OrderC"
  by (simp add: construct_defs order_def c_contiguous_def upt_rec numeral_2_eq_2 numeral_3_eq_3)

text \<open>
  C2, amended. For each of the tokens \<^verbatim>\<open>'C'\<close>, \<^verbatim>\<open>'F'\<close> and \<^verbatim>\<open>'V'\<close>, every positive
  element size, at least two spatial dimensions, every shape with as many axes as spatial
  dimensions or one more and with all extents at least 2, and a channel count that is 0
  (inferred), 1 or at least 2: the construction of a fresh array succeeds, and the order
  of the array is the token, except that \<^verbatim>\<open>'V'\<close> gives \<^verbatim>\<open>'F'\<close> when the array has one
  channel.
\<close>

theorem order_roundtrip:
  assumes tok: "tok \<noteq> OrderA" and isz: "0 < isz" and sd: "2 \<le> sd"
    and len: "length s = sd \<or> length s = sd + 1"
    and ge: "list_all (\<lambda>d. 2 \<le> d) s"
    and ch: "ch = 0 \<or> ch = 1 \<or> 2 \<le> ch"
  shows "\<exists>res. constructNumpyArray (Sequence s) sd ch isz tok init = Inr res \<and>
     order sd res = (if tok = OrderV \<and> bands sd res = 1 then OrderF else tok)"
proof -
  from ge have ge': "\<And>d. d \<in> set s \<Longrightarrow> 2 \<le> d" by (simp add: list_all_iff)
  have lt: "length (take sd s) = sd" using len by auto
  have get: "2 \<le> d" if "d \<in> set (take sd s)" for d
    using that ge' by (auto dest: in_set_takeD)
  from fresh_shape_cases [OF len ge' ch]
  consider (single) "deduce_channels s sd ch = Inr 1" "pshape s sd 1 = take sd s"
    | (multi) c where "deduce_channels s sd ch = Inr c" "2 \<le> c" "pshape s sd c = take sd s @ [c]"
    by blast
  then show ?thesis
  proof cases
    case single
    let ?p = "take sd s"
    have r: "constructNumpyArray (Sequence s) sd ch isz tok init =
       Inr \<lparr>shape = ?p,
            strides = (if tok = OrderC then rev (fortran_strides isz (rev ?p))
                       else fortran_strides isz ?p),
            itemsize = isz\<rparr>"
    proof -
      have "?p \<noteq> []" using lt sd by auto
      moreover have "0 \<le> d" if "d \<in> set (pshape s sd 1)" for d
        using that get single(2) by fastforce
      ultimately show ?thesis
        using construct_fresh [OF single(1) tok, of isz init] single(2) by simp
    qed
    show ?thesis
    proof (cases "tok = OrderC")
      case True
      with r show ?thesis by (simp add: order_C_layout)
    next
      case False
      have "order sd \<lparr>shape = ?p, strides = fortran_strides isz ?p, itemsize = isz\<rparr> = OrderF"
        by (rule order_F_layout) (use lt sd get isz in auto)
      moreover have "bands sd \<lparr>shape = ?p, strides = fortran_strides isz ?p, itemsize = isz\<rparr> = 1"
        using lt by (simp add: bands_def)
      ultimately show ?thesis using r False tok by (cases tok) simp_all
    qed
  next
    case (multi c)
    define p where "p = take sd s @ [c]"
    have pl: "last p = c" "butlast p = take sd s" "p \<noteq> []" "length p = sd + 1"
      using lt by (simp_all add: p_def)
    have gep: "2 \<le> d" if "d \<in> set p" for d using that get multi(2) by (auto simp: p_def)
    have ps: "pshape s sd c = p" using multi(3) by (simp add: p_def)
    have r: "constructNumpyArray (Sequence s) sd ch isz tok init =
       Inr \<lparr>shape = p,
            strides = (if tok = OrderC then rev (fortran_strides isz (rev p))
                       else if tok = OrderF then fortran_strides isz p
                       else fortran_strides (isz * c) (take sd s) @ [isz]),
            itemsize = isz\<rparr>"
    proof -
      have "0 \<le> d" if "d \<in> set (pshape s sd c)" for d
        using that gep ps by fastforce
      then show ?thesis
        using construct_fresh [OF multi(1) tok, of isz init] multi(2) pl unfolding ps
        by (simp del: fortran_strides.simps)
    qed
    show ?thesis
    proof (cases tok)
      case OrderC
      with r show ?thesis by (simp add: order_C_layout)
    next
      case OrderF
      have "order sd \<lparr>shape = p, strides = fortran_strides isz p, itemsize = isz\<rparr> = OrderF"
        by (rule order_F_layout) (use pl sd gep isz in auto)
      with r OrderF show ?thesis by simp
    next
      case OrderV
      have "order sd \<lparr>shape = take sd s @ [c],
                       strides = fortran_strides (isz * c) (take sd s) @ [isz],
                       itemsize = isz\<rparr> = OrderV"
        by (rule order_V_layout) (use lt sd get multi(2) isz in auto)
      moreover have "bands sd \<lparr>shape = take sd s @ [c],
                       strides = fortran_strides (isz * c) (take sd s) @ [isz],
                       itemsize = isz\<rparr> = c"
        using lt by (simp add: bands_def)
      ultimately show ?thesis using r OrderV multi(2) unfolding p_def by simp
    next
      case OrderA
      with tok show ?thesis by simp
    qed
  qed
qed

theorem order_roundtrip_witness:
  "constructNumpyArray (Sequence [4, 3]) 2 3 4 OrderV True =
     Inr \<lparr>shape = [4, 3, 3], strides = [12, 48, 4], itemsize = 4\<rparr> \<and>
   order 2 \<lparr>shape = [4, 3, 3], strides = [12, 48, 4], itemsize = 4\<rparr> = OrderV \<and>
   constructNumpyArray (Sequence [4, 3]) 2 1 4 OrderV True =
     Inr \<lparr>shape = [4, 3], strides = [4, 16], itemsize = 4\<rparr> \<and>
   order 2 \<lparr>shape = [4, 3], strides = [4, 16], itemsize = 4\<rparr> = OrderF \<and>
   constructNumpyArray (Sequence [4, 3, 3]) 2 0 4 OrderC True =
     Inr \<lparr>shape = [4, 3, 3], strides = [36, 12, 4], itemsize = 4\<rparr> \<and>
   order 2 \<lparr>shape = [4, 3, 3], strides = [36, 12, 4], itemsize = 4\<rparr> = OrderC"
proof -
  have a: "constructNumpyArray (Sequence [4, 3]) 2 3 4 OrderV True =
     Inr \<lparr>shape = [4, 3, 3], strides = [12, 48, 4], itemsize = 4\<rparr>"
    and b: "constructNumpyArray (Sequence [4, 3]) 2 1 4 OrderV True =
     Inr \<lparr>shape = [4, 3], strides = [4, 16], itemsize = 4\<rparr>"
    and c: "constructNumpyArray (Sequence [4, 3, 3]) 2 0 4 OrderC True =
     Inr \<lparr>shape = [4, 3, 3], strides = [36, 12, 4], itemsize = 4\<rparr>"
    by (simp_all add: construct_defs upt_rec numeral_2_eq_2 numeral_3_eq_3)
  have ba: "bands 2 \<lparr>shape = [4, 3, 3], strides = [12, 48, 4], itemsize = 4\<rparr> = 3"
    and bb: "bands 2 \<lparr>shape = [4, 3], strides = [4, 16], itemsize = 4\<rparr> = 1"
    by (simp_all add: bands_def)
  from order_roundtrip [of OrderV 4 2 "[4, 3]" 3 True] a ba
  have "order 2 \<lparr>shape = [4, 3, 3], strides = [12, 48, 4], itemsize = 4\<rparr> = OrderV"
    by simp
  moreover from order_roundtrip [of OrderV 4 2 "[4, 3]" 1 True] b bb
  have "order 2 \<lparr>shape = [4, 3], strides = [4, 16], itemsize = 4\<rparr> = OrderF"
    by simp
  moreover from order_roundtrip [of OrderC 4 2 "[4, 3, 3]" 0 True] c
  have "order 2 \<lparr>shape = [4, 3, 3], strides = [36, 12, 4], itemsize = 4\<rparr> = OrderC"
    by simp
  ultimately show ?thesis using a b c by simp
qed


section \<open>Inference of the channel count\<close>



text \<open>
  A shape of any other rank is not a shape of the class: the documentation of the array
  classes announces an exception for it. \<^verbatim>\<open>constructNumpyArray\<close> tests
  \<^verbatim>\<open>len(shape) == spatialDimensions\<close> only and raises none: for the class \<^verbatim>\<open>Image\<close>
  and the shape (4, 3, 2, 5) it takes the trailing extent 5 as the channel count and
  returns an array of shape (4, 3, 5).
\<close>

lemma wrong_rank_shape_accepted:
  "deduce_channels [4, 3, 2, 5] 2 0 = Inr 5 \<and>
   constructNumpyArray (Sequence [4, 3, 2, 5]) 2 0 4 OrderV True =
     Inr \<lparr>shape = [4, 3, 5], strides = [20, 80, 4], itemsize = 4\<rparr>"
  by (simp add: construct_defs upt_rec numeral_2_eq_2 numeral_3_eq_3)

section \<open>The order token \<^verbatim>\<open>'A'\<close>\<close>

text \<open>
  With the token \<^verbatim>\<open>'A'\<close> and no input array, the array is constructed as with the token
  \<^verbatim>\<open>'V'\<close>.
\<close>

lemma auto_order_fresh:
  "constructNumpyArray (Sequence s) sd ch isz OrderA init =
     constructNumpyArray (Sequence s) sd ch isz OrderV init"
proof -
  have "strideOrdering_of (Sequence s) sd ch OrderA = strideOrdering_of (Sequence s) sd ch OrderV"
    by (simp add: strideOrdering_of_def resolve_auto_def obj_strideOrdering_def Let_def
        split: sum.splits)
  then have "constructNumpyArray_alloc (Sequence s) sd ch isz OrderA =
      constructNumpyArray_alloc (Sequence s) sd ch isz OrderV"
    unfolding constructNumpyArray_alloc_def by (rule arg_cong)
  then show ?thesis by (simp add: constructNumpyArray_Sequence)
qed

text \<open>
  An array that is copied with the token \<^verbatim>\<open>'A'\<close> into a class of the same number of axes
  keeps its stride ordering: a C-ordered array of shape (4, 3) is copied as a C-ordered
  \<^verbatim>\<open>Image\<close>.
\<close>

lemma auto_order_same_rank:
  "constructNumpyArray (Array \<lparr>shape = [4, 3], strides = [12, 4], itemsize = 4\<rparr>)
       2 0 4 OrderA True =
     Inr \<lparr>shape = [4, 3], strides = [12, 4], itemsize = 4\<rparr>"
  by (simp add: construct_defs upt_rec numeral_2_eq_2 numeral_3_eq_3)

text \<open>
  C3. Copying an array with the token \<^verbatim>\<open>'A'\<close> does not give a copy with the adjusted
  stride ordering of the input when the channel axis is dropped or added; the code raises
  instead. Evaluated for 4-byte elements:

  \<^item> A C-contiguous array of shape (4, 3, 1) has the byte strides (12, 4, 4) and the stride
    ordering (2, 0, 1). Copied as an \<^verbatim>\<open>Image\<close>, its channel axis is dropped; the entry 1 of
    the channel axis is removed, and since it is not 0 the remaining entries (2, 0) are not
    shifted: filling \<^verbatim>\<open>ppshape\<close>, of length 2, at index 2 raises \<^verbatim>\<open>IndexError\<close>, whether
    or not the contents are to be initialised. The same holds for the array of shape
    (4, 3, 1) and strides (4, 16, 4) that \<^verbatim>\<open>__new__\<close> obtains by \<^verbatim>\<open>swapaxes(0, 1)\<close> from a
    C-contiguous array of shape (3, 4, 1): its ordering is (0, 2, 1). It also holds for a
    view of shape (4, 3, 1) with the pairwise different strides (4, 32, 16), where the
    ordering (0, 2, 1) does not depend on how \<^verbatim>\<open>argsort\<close> orders equal strides.
  \<^item> A Fortran-contiguous array of shape (4, 3, 1) has the stride ordering (0, 1, 2). The
    removed entry is 2, the remaining ordering (0, 1) is valid, and without initialisation
    the result is a Fortran-ordered array of shape (4, 3). With initialisation, the
    assignment \<^verbatim>\<open>res[...] = obj\<close> of the shape (4, 3, 1) to the shape (4, 3) raises
    \<^verbatim>\<open>ValueError\<close>.
  \<^item> A C-contiguous array of shape (4, 3) copied into a class of 3 channels gets the
    ordering (2, 1, 0): without initialisation the result is a C-ordered array of shape
    (4, 3, 3); with initialisation, the assignment of the shape (4, 3) to the shape
    (4, 3, 3) raises \<^verbatim>\<open>ValueError\<close>.
\<close>

theorem auto_order_copy_raises:
  "c_contiguous \<lparr>shape = [4, 3, 1], strides = [12, 4, 4], itemsize = 4\<rparr> \<and>
   obj_strideOrdering (Array \<lparr>shape = [4, 3, 1], strides = [12, 4, 4], itemsize = 4\<rparr>) =
     Some [2, 0, 1] \<and>
   strideOrdering_of (Array \<lparr>shape = [4, 3, 1], strides = [12, 4, 4], itemsize = 4\<rparr>)
     2 0 OrderA = Inr [2, 0] \<and>
   constructNumpyArray (Array \<lparr>shape = [4, 3, 1], strides = [12, 4, 4], itemsize = 4\<rparr>)
     2 0 4 OrderA False = Inl IndexError \<and>
   constructNumpyArray (Array \<lparr>shape = [4, 3, 1], strides = [12, 4, 4], itemsize = 4\<rparr>)
     2 0 4 OrderA True = Inl IndexError \<and>
   obj_strideOrdering (Array \<lparr>shape = [4, 3, 1], strides = [4, 16, 4], itemsize = 4\<rparr>) =
     Some [0, 2, 1] \<and>
   constructNumpyArray (Array \<lparr>shape = [4, 3, 1], strides = [4, 16, 4], itemsize = 4\<rparr>)
     2 0 4 OrderA True = Inl IndexError \<and>
   obj_strideOrdering (Array \<lparr>shape = [4, 3, 1], strides = [4, 32, 16], itemsize = 4\<rparr>) =
     Some [0, 2, 1] \<and>
   constructNumpyArray (Array \<lparr>shape = [4, 3, 1], strides = [4, 32, 16], itemsize = 4\<rparr>)
     2 0 4 OrderA False = Inl IndexError \<and>
   f_contiguous \<lparr>shape = [4, 3, 1], strides = [4, 16, 48], itemsize = 4\<rparr> \<and>
   obj_strideOrdering (Array \<lparr>shape = [4, 3, 1], strides = [4, 16, 48], itemsize = 4\<rparr>) =
     Some [0, 1, 2] \<and>
   constructNumpyArray (Array \<lparr>shape = [4, 3, 1], strides = [4, 16, 48], itemsize = 4\<rparr>)
     2 0 4 OrderA False = Inr \<lparr>shape = [4, 3], strides = [4, 16], itemsize = 4\<rparr> \<and>
   constructNumpyArray (Array \<lparr>shape = [4, 3, 1], strides = [4, 16, 48], itemsize = 4\<rparr>)
     2 0 4 OrderA True = Inl ValueError \<and>
   constructNumpyArray (Array \<lparr>shape = [4, 3], strides = [12, 4], itemsize = 4\<rparr>)
     2 3 4 OrderA False = Inr \<lparr>shape = [4, 3, 3], strides = [36, 12, 4], itemsize = 4\<rparr> \<and>
   constructNumpyArray (Array \<lparr>shape = [4, 3], strides = [12, 4], itemsize = 4\<rparr>)
     2 3 4 OrderA True = Inl ValueError"
  by (simp add: construct_defs c_contiguous_def f_contiguous_def upt_rec
      numeral_2_eq_2 numeral_3_eq_3)

section \<open>The number of tags after \<^verbatim>\<open>take\<close> along an axis\<close>

text \<open>
  C1 is not met by \<^verbatim>\<open>take\<close> with an axis. The method replaces the tags only when no
  axis is given; with an axis the result keeps the tags of the array, one for each of its
  axes, while NumPy replaces the axis by the axes of the indices. Taking the single index
  0 along axis 0 of a 4 x 3 image with the tags (x, y) gives an array with one axis and
  two tags. In the same way a reduction without an axis returns an array without axes
  that still carries the two tags.
\<close>

theorem take_along_axis_tag_count:
  "tags_ok \<lparr>vshape = [4, 3], axistags = Some [AxisX, AxisY]\<rparr> \<and>
   take_array \<lparr>vshape = [4, 3], axistags = Some [AxisX, AxisY]\<rparr> [] (Some 0) =
     Inr \<lparr>vshape = [3], axistags = Some [AxisX, AxisY]\<rparr> \<and>
   \<not> tags_ok \<lparr>vshape = [3], axistags = Some [AxisX, AxisY]\<rparr> \<and>
   reduction \<lparr>vshape = [4, 3], axistags = Some [AxisX, AxisY]\<rparr> None =
     Inr \<lparr>vshape = [], axistags = Some [AxisX, AxisY]\<rparr> \<and>
   \<not> tags_ok \<lparr>vshape = [], axistags = Some [AxisX, AxisY]\<rparr>"
  by (simp add: tags_ok_def take_array_def numpy_take_shape_def normalize_axis_def
      finalize_def reduction_def numpy_reduce_shape_def)


section \<open>The tags after indexing\<close>

text \<open>
  C5. When indexing returns a view of the array, the tags of the result are those of
  \<^verbatim>\<open>axistags.transform\<close>: an integer index drops the tag of the axis it consumes, a slice
  keeps the tag of its axis, \<^verbatim>\<open>newaxis\<close> inserts the tag "unknown", and the axes that are
  not indexed, or are covered by \<^verbatim>\<open>...\<close>, keep their tags. When indexing returns a fresh
  array, the result carries one tag "unknown" for each of its axes.
\<close>

theorem getitem_axistags:
  "(numpy_getitem (vshape self) idx = Inr (NpView shp) \<and> axistags self = Some tags \<longrightarrow>
      getitem self idx =
        Inr (ArrayResult
          \<lparr>vshape = shp, axistags = Some (tags_transform tags idx (length shp))\<rparr>)) \<and>
   (numpy_getitem (vshape self) idx = Inr (NpCopy shp) \<and> axistags self = Some tags \<longrightarrow>
      getitem self idx =
        Inr (ArrayResult
          \<lparr>vshape = shp, axistags = Some (replicate (length shp) AxisUnknown)\<rparr>)) \<and>
   tags_transform (t # ts) (Basic (IInt i # items)) n = tags_transform ts (Basic items) m \<and>
   tags_transform (t # ts) (Basic (ISlice a b c # items)) n =
     t # tags_transform ts (Basic items) m \<and>
   tags_transform ts (Basic (INewAxis # items)) n =
     AxisUnknown # tags_transform ts (Basic items) m \<and>
   tags_transform ts (Basic []) n = ts \<and>
   tags_transform ts (Basic [IEllipsis]) n = ts"
proof (intro conjI impI)
  assume "numpy_getitem (vshape self) idx = Inr (NpView shp) \<and> axistags self = Some tags"
  then show "getitem self idx =
        Inr (ArrayResult
          \<lparr>vshape = shp, axistags = Some (tags_transform tags idx (length shp))\<rparr>)"
    by (simp add: getitem_def finalize_def)
next
  assume "numpy_getitem (vshape self) idx = Inr (NpCopy shp) \<and> axistags self = Some tags"
  then show "getitem self idx =
        Inr (ArrayResult
          \<lparr>vshape = shp, axistags = Some (replicate (length shp) AxisUnknown)\<rparr>)"
    by (simp add: getitem_def finalize_def unknown_tags_def)
next
  show "tags_transform (t # ts) (Basic (IInt i # items)) n = tags_transform ts (Basic items) m"
    by (simp add: tags_transform_def ellipsis_length_def)
next
  show "tags_transform (t # ts) (Basic (ISlice a b c # items)) n =
     t # tags_transform ts (Basic items) m"
    by (simp add: tags_transform_def ellipsis_length_def)
next
  show "tags_transform ts (Basic (INewAxis # items)) n =
     AxisUnknown # tags_transform ts (Basic items) m"
    by (simp add: tags_transform_def ellipsis_length_def)
next
  show "tags_transform ts (Basic []) n = ts"
    by (simp add: tags_transform_def)
next
  show "tags_transform ts (Basic [IEllipsis]) n = ts"
    by (simp add: tags_transform_def ellipsis_length_def)
qed

theorem getitem_axistags_witness:
  "getitem \<lparr>vshape = [4, 3, 3], axistags = Some [AxisX, AxisY, AxisChannel]\<rparr>
     (Basic [IInt 2, ISlice None None None, INewAxis]) =
   Inr (ArrayResult
     \<lparr>vshape = [3, 1, 3], axistags = Some [AxisY, AxisUnknown, AxisChannel]\<rparr>) \<and>
   getitem \<lparr>vshape = [4, 3, 3], axistags = Some [AxisX, AxisY, AxisChannel]\<rparr> (Fancy [5, 3, 3]) =
   Inr (ArrayResult
     \<lparr>vshape = [5, 3, 3], axistags = Some [AxisUnknown, AxisUnknown, AxisUnknown]\<rparr>)"
proof -
  let ?a = "\<lparr>vshape = [4, 3, 3], axistags = Some [AxisX, AxisY, AxisChannel]\<rparr>"
  have v: "numpy_getitem (vshape ?a) (Basic [IInt 2, ISlice None None None, INewAxis]) =
      Inr (NpView [3, 1, 3])"
    by (simp add: numpy_getitem_def ellipsis_length_def slice_length_def)
  have c: "numpy_getitem (vshape ?a) (Fancy [5, 3, 3]) = Inr (NpCopy [5, 3, 3])"
    by (simp add: numpy_getitem_def)
  have t: "tags_transform [AxisX, AxisY, AxisChannel]
             (Basic [IInt 2, ISlice None None None, INewAxis]) n =
           [AxisY, AxisUnknown, AxisChannel]" for n
    by (simp add: tags_transform_def ellipsis_length_def)
  from getitem_axistags [THEN conjunct1,
      of ?a "Basic [IInt 2, ISlice None None None, INewAxis]" "[3, 1, 3]"
         "[AxisX, AxisY, AxisChannel]"] v t
  have "getitem ?a (Basic [IInt 2, ISlice None None None, INewAxis]) =
        Inr (ArrayResult
          \<lparr>vshape = [3, 1, 3], axistags = Some [AxisY, AxisUnknown, AxisChannel]\<rparr>)"
    by simp
  moreover from getitem_axistags [THEN conjunct2, THEN conjunct1,
      of ?a "Fancy [5, 3, 3]" "[5, 3, 3]" "[AxisX, AxisY, AxisChannel]"] c
  have "getitem ?a (Fancy [5, 3, 3]) =
        Inr (ArrayResult
          \<lparr>vshape = [5, 3, 3], axistags = Some [AxisUnknown, AxisUnknown, AxisUnknown]\<rparr>)"
    by (simp add: numeral_3_eq_3)
  ultimately show ?thesis by simp
qed


section \<open>The shape law of the pyramid levels\<close>

text \<open>
  C6, as stated, fails. A pyramid built from an 8 x 8 single-channel image with the levels
  0 and 1 has a level 1 of shape 4 x 4: the halving law holds, but level 0 is not twice
  level 1 minus one. For an \<^verbatim>\<open>Image\<close> (channel count inferred) of shape 8 x 8 x 3,
  level 1 has the shape 4 x 4 x 2: the channel axis is halved as well. And a pyramid built
  from a 3 x 3 image with the levels -2 to 0 has two levels of shape 5 x 5 below the image:
  both new levels are sized from the same image.
\<close>

theorem pyramid_shape_law_counterexample:
  "ImagePyramid_init
     \<lparr>array = \<lparr>shape = [8, 8], strides = [4, 32], itemsize = 4\<rparr>,
         cls = \<lparr>spatialDimensions = 2, channels = 1\<rparr>, data = (7::int)\<rparr> 0 0 1 =
   Inr \<lparr>levels =
        [\<lparr>array = \<lparr>shape = [8, 8], strides = [4, 32], itemsize = 4\<rparr>,
         cls = \<lparr>spatialDimensions = 2, channels = 1\<rparr>, data = 7\<rparr>,
         \<lparr>array = \<lparr>shape = [4, 4], strides = [4, 16], itemsize = 4\<rparr>,
         cls = \<lparr>spatialDimensions = 2, channels = 1\<rparr>, data = 0\<rparr>],
      lowestLevel = 0, highestLevel = 1\<rparr> \<and>
   halved 2 [8, 8] [4, 4] \<and> \<not> doubled 2 [8, 8] [4, 4] \<and>
   ImagePyramid_init
     \<lparr>array = \<lparr>shape = [8, 8, 3], strides = [12, 96, 4], itemsize = 4\<rparr>,
         cls = \<lparr>spatialDimensions = 2, channels = 0\<rparr>, data = (7::int)\<rparr> 0 0 1 =
   Inr \<lparr>levels =
        [\<lparr>array = \<lparr>shape = [8, 8, 3], strides = [12, 96, 4], itemsize = 4\<rparr>,
         cls = \<lparr>spatialDimensions = 2, channels = 0\<rparr>, data = 7\<rparr>,
         \<lparr>array = \<lparr>shape = [4, 4, 2], strides = [8, 32, 4], itemsize = 4\<rparr>,
         cls = \<lparr>spatialDimensions = 2, channels = 0\<rparr>, data = 0\<rparr>],
      lowestLevel = 0, highestLevel = 1\<rparr> \<and>
   \<not> halved 2 [8, 8, 3] [4, 4, 2] \<and>
   ImagePyramid_init
     \<lparr>array = \<lparr>shape = [3, 3], strides = [4, 12], itemsize = 4\<rparr>,
         cls = \<lparr>spatialDimensions = 2, channels = 1\<rparr>, data = (7::int)\<rparr> 0 (- 2) 0 =
   Inr \<lparr>levels =
        [\<lparr>array = \<lparr>shape = [5, 5], strides = [4, 20], itemsize = 4\<rparr>,
         cls = \<lparr>spatialDimensions = 2, channels = 1\<rparr>, data = 0\<rparr>,
         \<lparr>array = \<lparr>shape = [5, 5], strides = [4, 20], itemsize = 4\<rparr>,
         cls = \<lparr>spatialDimensions = 2, channels = 1\<rparr>, data = 0\<rparr>,
         \<lparr>array = \<lparr>shape = [3, 3], strides = [4, 12], itemsize = 4\<rparr>,
         cls = \<lparr>spatialDimensions = 2, channels = 1\<rparr>, data = 7\<rparr>],
      lowestLevel = - 2, highestLevel = 0\<rparr> \<and>
   \<not> halved 2 [5, 5] [5, 5] \<and> \<not> doubled 2 [5, 5] [5, 5]"
proof -
  have "ImagePyramid_init
     \<lparr>array = \<lparr>shape = [8, 8], strides = [4, 32], itemsize = 4\<rparr>,
         cls = \<lparr>spatialDimensions = 2, channels = 1\<rparr>, data = (7::int)\<rparr> 0 0 1 =
   Inr \<lparr>levels =
        [\<lparr>array = \<lparr>shape = [8, 8], strides = [4, 32], itemsize = 4\<rparr>,
         cls = \<lparr>spatialDimensions = 2, channels = 1\<rparr>, data = 7\<rparr>,
         \<lparr>array = \<lparr>shape = [4, 4], strides = [4, 16], itemsize = 4\<rparr>,
         cls = \<lparr>spatialDimensions = 2, channels = 1\<rparr>, data = 0\<rparr>],
      lowestLevel = 0, highestLevel = 1\<rparr>"
    by code_simp
  moreover have "ImagePyramid_init
     \<lparr>array = \<lparr>shape = [8, 8, 3], strides = [12, 96, 4], itemsize = 4\<rparr>,
         cls = \<lparr>spatialDimensions = 2, channels = 0\<rparr>, data = (7::int)\<rparr> 0 0 1 =
   Inr \<lparr>levels =
        [\<lparr>array = \<lparr>shape = [8, 8, 3], strides = [12, 96, 4], itemsize = 4\<rparr>,
         cls = \<lparr>spatialDimensions = 2, channels = 0\<rparr>, data = 7\<rparr>,
         \<lparr>array = \<lparr>shape = [4, 4, 2], strides = [8, 32, 4], itemsize = 4\<rparr>,
         cls = \<lparr>spatialDimensions = 2, channels = 0\<rparr>, data = 0\<rparr>],
      lowestLevel = 0, highestLevel = 1\<rparr>"
    by code_simp
  moreover have "ImagePyramid_init
     \<lparr>array = \<lparr>shape = [3, 3], strides = [4, 12], itemsize = 4\<rparr>,
         cls = \<lparr>spatialDimensions = 2, channels = 1\<rparr>, data = (7::int)\<rparr> 0 (- 2) 0 =
   Inr \<lparr>levels =
        [\<lparr>array = \<lparr>shape = [5, 5], strides = [4, 20], itemsize = 4\<rparr>,
         cls = \<lparr>spatialDimensions = 2, channels = 1\<rparr>, data = 0\<rparr>,
         \<lparr>array = \<lparr>shape = [5, 5], strides = [4, 20], itemsize = 4\<rparr>,
         cls = \<lparr>spatialDimensions = 2, channels = 1\<rparr>, data = 0\<rparr>,
         \<lparr>array = \<lparr>shape = [3, 3], strides = [4, 12], itemsize = 4\<rparr>,
         cls = \<lparr>spatialDimensions = 2, channels = 1\<rparr>, data = 7\<rparr>],
      lowestLevel = - 2, highestLevel = 0\<rparr>"
    by code_simp
  moreover have "halved 2 [8, 8] [4, 4]" "\<not> doubled 2 [8, 8] [4, 4]"
    "\<not> halved 2 [8, 8, 3] [4, 4, 2]" "\<not> halved 2 [5, 5] [5, 5]"
    "\<not> doubled 2 [5, 5] [5, 5]"
    by (simp_all add: halved_def doubled_def ceil_half_def)
  ultimately show ?thesis by simp
qed

text \<open>
  C6, amended. For images of a single channel (no channel axis) or of a class with a
  fixed channel count of at least 2: a pyramid constructed with a lowest level at most
  one below the copy-destination level satisfies the invariant \<open>pyramid_inv\<close>, and every
  successful \<^verbatim>\<open>createLevel\<close> that reaches at most one level below the lowest level keeps
  it: there is one level for every integer of the range, and along every spatial axis the
  extent of level \<open>k + 1\<close> is the rounded-up half of the extent of level \<open>k\<close>, while the
  channel axis keeps its extent. A level created one below the lowest level has, along
  every spatial axis, twice the extent of the former lowest level minus one.
\<close>

theorem pyramid_shape_law:
  "(ImagePyramid_init img cp lo hi = Inr p \<and> normal_shape (cls img) (shape (array img)) \<and>
      cp - 1 \<le> lo \<longrightarrow> pyramid_inv (cls img) p) \<and>
   (pyramid_inv c q \<and> createLevel q level = (None, q') \<and> lowestLevel q - 1 \<le> level \<longrightarrow>
      pyramid_inv c q' \<and>
      (level < lowestLevel q \<longrightarrow>
         doubled (spatialDimensions c) (shape (array (hd (levels q'))))
           (shape (array (hd (levels q))))))"
  using init_inv [of img cp lo hi p] createLevel_inv [of c q level q']
  by blast

theorem pyramid_shape_law_witness:
  "pyramid_inv \<lparr>spatialDimensions = 2, channels = 3\<rparr>
     \<lparr>levels =
        [\<lparr>array = \<lparr>shape = [5, 5, 3], strides = [12, 60, 4], itemsize = 4\<rparr>,
         cls = \<lparr>spatialDimensions = 2, channels = 3\<rparr>, data = 0\<rparr>,
         \<lparr>array = \<lparr>shape = [3, 3, 3], strides = [12, 36, 4], itemsize = 4\<rparr>,
         cls = \<lparr>spatialDimensions = 2, channels = 3\<rparr>, data = (7::int)\<rparr>,
         \<lparr>array = \<lparr>shape = [2, 2, 3], strides = [12, 24, 4], itemsize = 4\<rparr>,
         cls = \<lparr>spatialDimensions = 2, channels = 3\<rparr>, data = 0\<rparr>,
         \<lparr>array = \<lparr>shape = [1, 1, 3], strides = [12, 12, 4], itemsize = 4\<rparr>,
         cls = \<lparr>spatialDimensions = 2, channels = 3\<rparr>, data = 0\<rparr>],
      lowestLevel = - 1, highestLevel = 2\<rparr> \<and>
   pyramid_inv \<lparr>spatialDimensions = 2, channels = 3\<rparr>
     \<lparr>levels =
        [\<lparr>array = \<lparr>shape = [9, 9, 3], strides = [12, 108, 4], itemsize = 4\<rparr>,
         cls = \<lparr>spatialDimensions = 2, channels = 3\<rparr>, data = 0\<rparr>,
         \<lparr>array = \<lparr>shape = [5, 5, 3], strides = [12, 60, 4], itemsize = 4\<rparr>,
         cls = \<lparr>spatialDimensions = 2, channels = 3\<rparr>, data = 0\<rparr>,
         \<lparr>array = \<lparr>shape = [3, 3, 3], strides = [12, 36, 4], itemsize = 4\<rparr>,
         cls = \<lparr>spatialDimensions = 2, channels = 3\<rparr>, data = (7::int)\<rparr>,
         \<lparr>array = \<lparr>shape = [2, 2, 3], strides = [12, 24, 4], itemsize = 4\<rparr>,
         cls = \<lparr>spatialDimensions = 2, channels = 3\<rparr>, data = 0\<rparr>,
         \<lparr>array = \<lparr>shape = [1, 1, 3], strides = [12, 12, 4], itemsize = 4\<rparr>,
         cls = \<lparr>spatialDimensions = 2, channels = 3\<rparr>, data = 0\<rparr>],
      lowestLevel = - 2, highestLevel = 2\<rparr> \<and>
   doubled 2 [9, 9, 3] [5, 5, 3] \<and>
   successively (halved 2) [[9, 9, 3], [5, 5, 3], [3, 3, 3], [2, 2, 3], [1, 1, 3]]"
proof -
  let ?img = "\<lparr>array = \<lparr>shape = [3, 3, 3], strides = [12, 36, 4], itemsize = 4\<rparr>,
         cls = \<lparr>spatialDimensions = 2, channels = 3\<rparr>, data = (7::int)\<rparr>"
  let ?p = "\<lparr>levels =
        [\<lparr>array = \<lparr>shape = [5, 5, 3], strides = [12, 60, 4], itemsize = 4\<rparr>,
         cls = \<lparr>spatialDimensions = 2, channels = 3\<rparr>, data = 0\<rparr>,
         \<lparr>array = \<lparr>shape = [3, 3, 3], strides = [12, 36, 4], itemsize = 4\<rparr>,
         cls = \<lparr>spatialDimensions = 2, channels = 3\<rparr>, data = (7::int)\<rparr>,
         \<lparr>array = \<lparr>shape = [2, 2, 3], strides = [12, 24, 4], itemsize = 4\<rparr>,
         cls = \<lparr>spatialDimensions = 2, channels = 3\<rparr>, data = 0\<rparr>,
         \<lparr>array = \<lparr>shape = [1, 1, 3], strides = [12, 12, 4], itemsize = 4\<rparr>,
         cls = \<lparr>spatialDimensions = 2, channels = 3\<rparr>, data = 0\<rparr>],
      lowestLevel = - 1, highestLevel = 2\<rparr>"
  let ?q = "\<lparr>levels =
        [\<lparr>array = \<lparr>shape = [9, 9, 3], strides = [12, 108, 4], itemsize = 4\<rparr>,
         cls = \<lparr>spatialDimensions = 2, channels = 3\<rparr>, data = 0\<rparr>,
         \<lparr>array = \<lparr>shape = [5, 5, 3], strides = [12, 60, 4], itemsize = 4\<rparr>,
         cls = \<lparr>spatialDimensions = 2, channels = 3\<rparr>, data = 0\<rparr>,
         \<lparr>array = \<lparr>shape = [3, 3, 3], strides = [12, 36, 4], itemsize = 4\<rparr>,
         cls = \<lparr>spatialDimensions = 2, channels = 3\<rparr>, data = (7::int)\<rparr>,
         \<lparr>array = \<lparr>shape = [2, 2, 3], strides = [12, 24, 4], itemsize = 4\<rparr>,
         cls = \<lparr>spatialDimensions = 2, channels = 3\<rparr>, data = 0\<rparr>,
         \<lparr>array = \<lparr>shape = [1, 1, 3], strides = [12, 12, 4], itemsize = 4\<rparr>,
         cls = \<lparr>spatialDimensions = 2, channels = 3\<rparr>, data = 0\<rparr>],
      lowestLevel = - 2, highestLevel = 2\<rparr>"
  have i: "ImagePyramid_init ?img 0 (- 1) 2 = Inr ?p"
    by code_simp
  have n: "normal_shape (cls ?img) (shape (array ?img))"
    by (simp add: normal_shape_def)
  from pyramid_shape_law [THEN conjunct1, of ?img 0 "- 1" 2 ?p] i n
  have p: "pyramid_inv \<lparr>spatialDimensions = 2, channels = 3\<rparr> ?p"
    by simp
  have c: "createLevel ?p (- 2) = (None, ?q)"
    by code_simp
  from pyramid_shape_law [THEN conjunct2, of "\<lparr>spatialDimensions = 2, channels = 3\<rparr>" ?p "- 2" ?q] p c
  have q: "pyramid_inv \<lparr>spatialDimensions = 2, channels = 3\<rparr> ?q"
    and d: "doubled 2 [9, 9, 3] [5, 5, 3]"
    by simp_all
  from q have "successively (halved 2) [[9, 9, 3], [5, 5, 3], [3, 3, 3], [2, 2, 3], [1, 1, 3]]"
    by (simp add: pyramid_inv_def)
  with p q d show ?thesis by simp
qed


section \<open>The Laplacian pyramid\<close>

text \<open>
  C7, as stated, fails: \<^verbatim>\<open>reduceLaplacian\<close> stores the reconstruction minus the content
  of the level, and \<^verbatim>\<open>expandLaplacian\<close> subtracts the stored image from the expanded
  coarser level; it does not add them. Take a pyramid of a 4 x 4 and a 2 x 2 level, the
  contents of an array abstracted to one number, smoothing and subsampling that keep
  this number, and an expansion that adds one to it. From the content 5 at level 0,
  \<^verbatim>\<open>reduceLaplacian(0, 1)\<close> stores 6 - 5 = 1 at level 0 (the content minus the
  reconstruction is -1), and \<^verbatim>\<open>expandLaplacian(1, 0)\<close> restores 6 - 1 = 5 (the sum of
  the expanded level and the stored image is 7).
\<close>

theorem laplacian_counterexample:
  "reduceLaplacian \<lparr>convolve = (\<lambda>c d. d), subsample = (\<lambda>d. d), expandImpl = (\<lambda>c s d. s + 1)\<rparr>
     \<lparr>levels =
        [\<lparr>array = \<lparr>shape = [4, 4], strides = [4, 16], itemsize = 4\<rparr>,
         cls = \<lparr>spatialDimensions = 2, channels = 1\<rparr>, data = (5::int)\<rparr>,
         \<lparr>array = \<lparr>shape = [2, 2], strides = [4, 8], itemsize = 4\<rparr>,
         cls = \<lparr>spatialDimensions = 2, channels = 1\<rparr>, data = 0\<rparr>],
      lowestLevel = 0, highestLevel = 1\<rparr> 0 1 (0.42::real) =
   (None,
     \<lparr>levels =
        [\<lparr>array = \<lparr>shape = [4, 4], strides = [4, 16], itemsize = 4\<rparr>,
         cls = \<lparr>spatialDimensions = 2, channels = 1\<rparr>, data = (1::int)\<rparr>,
         \<lparr>array = \<lparr>shape = [2, 2], strides = [4, 8], itemsize = 4\<rparr>,
         cls = \<lparr>spatialDimensions = 2, channels = 1\<rparr>, data = 5\<rparr>],
      lowestLevel = 0, highestLevel = 1\<rparr>) \<and>
   (5::int) - (5 + 1) = - 1 \<and>
   expandLaplacian \<lparr>convolve = (\<lambda>c d. d), subsample = (\<lambda>d. d), expandImpl = (\<lambda>c s d. s + 1)\<rparr>
     \<lparr>levels =
        [\<lparr>array = \<lparr>shape = [4, 4], strides = [4, 16], itemsize = 4\<rparr>,
         cls = \<lparr>spatialDimensions = 2, channels = 1\<rparr>, data = (1::int)\<rparr>,
         \<lparr>array = \<lparr>shape = [2, 2], strides = [4, 8], itemsize = 4\<rparr>,
         cls = \<lparr>spatialDimensions = 2, channels = 1\<rparr>, data = 5\<rparr>],
      lowestLevel = 0, highestLevel = 1\<rparr> 1 0 (0.42::real) =
   (None,
     \<lparr>levels =
        [\<lparr>array = \<lparr>shape = [4, 4], strides = [4, 16], itemsize = 4\<rparr>,
         cls = \<lparr>spatialDimensions = 2, channels = 1\<rparr>, data = (5::int)\<rparr>,
         \<lparr>array = \<lparr>shape = [2, 2], strides = [4, 8], itemsize = 4\<rparr>,
         cls = \<lparr>spatialDimensions = 2, channels = 1\<rparr>, data = 5\<rparr>],
      lowestLevel = 0, highestLevel = 1\<rparr>) \<and>
   ((5::int) + 1) + 1 = 7"
proof -
  have n2: "new_from_shape \<lparr>spatialDimensions = 2, channels = 1\<rparr> 4 [4, 4] =
      Inr (\<lparr>array = \<lparr>shape = [4, 4], strides = [4, 16], itemsize = 4\<rparr>,
         cls = \<lparr>spatialDimensions = 2, channels = 1\<rparr>, data = (0::int)\<rparr>)"
    by (simp add: new_from_shape_def construct_defs upt_rec numeral_2_eq_2)
  have "reduceLaplacian \<lparr>convolve = (\<lambda>c d. d), subsample = (\<lambda>d. d), expandImpl = (\<lambda>c s d. s + 1)\<rparr>
     \<lparr>levels =
        [\<lparr>array = \<lparr>shape = [4, 4], strides = [4, 16], itemsize = 4\<rparr>,
         cls = \<lparr>spatialDimensions = 2, channels = 1\<rparr>, data = (5::int)\<rparr>,
         \<lparr>array = \<lparr>shape = [2, 2], strides = [4, 8], itemsize = 4\<rparr>,
         cls = \<lparr>spatialDimensions = 2, channels = 1\<rparr>, data = 0\<rparr>],
      lowestLevel = 0, highestLevel = 1\<rparr> 0 1 (0.42::real) =
   (None,
     \<lparr>levels =
        [\<lparr>array = \<lparr>shape = [4, 4], strides = [4, 16], itemsize = 4\<rparr>,
         cls = \<lparr>spatialDimensions = 2, channels = 1\<rparr>, data = (1::int)\<rparr>,
         \<lparr>array = \<lparr>shape = [2, 2], strides = [4, 8], itemsize = 4\<rparr>,
         cls = \<lparr>spatialDimensions = 2, channels = 1\<rparr>, data = 5\<rparr>],
      lowestLevel = 0, highestLevel = 1\<rparr>)"
    by (simp add: reduceLaplacian_def createLevel_def upto_rec1 reduceLaplacian_step_def
        pyramid_getitem_def pyramid_setitem_def py_getitem_def assign_contents_def
        subsampled_shape_def)
  moreover have "expandLaplacian \<lparr>convolve = (\<lambda>c d. d), subsample = (\<lambda>d. d), expandImpl = (\<lambda>c s d. s + 1)\<rparr>
     \<lparr>levels =
        [\<lparr>array = \<lparr>shape = [4, 4], strides = [4, 16], itemsize = 4\<rparr>,
         cls = \<lparr>spatialDimensions = 2, channels = 1\<rparr>, data = (1::int)\<rparr>,
         \<lparr>array = \<lparr>shape = [2, 2], strides = [4, 8], itemsize = 4\<rparr>,
         cls = \<lparr>spatialDimensions = 2, channels = 1\<rparr>, data = 5\<rparr>],
      lowestLevel = 0, highestLevel = 1\<rparr> 1 0 (0.42::real) =
   (None,
     \<lparr>levels =
        [\<lparr>array = \<lparr>shape = [4, 4], strides = [4, 16], itemsize = 4\<rparr>,
         cls = \<lparr>spatialDimensions = 2, channels = 1\<rparr>, data = (5::int)\<rparr>,
         \<lparr>array = \<lparr>shape = [2, 2], strides = [4, 8], itemsize = 4\<rparr>,
         cls = \<lparr>spatialDimensions = 2, channels = 1\<rparr>, data = 5\<rparr>],
      lowestLevel = 0, highestLevel = 1\<rparr>)"
    by (simp add: expandLaplacian_def createLevel_def upto_rec1 expandLaplacian_step_def
        pyramid_getitem_def pyramid_setitem_def py_getitem_def assign_contents_def n2)
  ultimately show ?thesis by simp
qed

text \<open>
  C7, amended. Let the reduced contents of \<open>srcLevel\<close> be its contents before the call,
  and the reduced contents of each next level the smoothed and subsampled reduced contents
  of the level below. A successful \<^verbatim>\<open>reduceLaplacian\<close> leaves at each processed level \<open>k\<close>,
  from \<open>srcLevel\<close> to \<open>destLevel - 1\<close>, the expansion of the reduced contents of level
  \<open>k + 1\<close> minus the reduced contents of level \<open>k\<close>, and at \<open>destLevel\<close> its reduced
  contents. A successful \<^verbatim>\<open>expandLaplacian\<close> on existing levels leaves \<open>srcLevel\<close> as it
  is and sets each level \<open>k\<close>, from \<open>srcLevel - 1\<close> down to \<open>destLevel\<close>, to the expansion
  of the new level \<open>k + 1\<close> minus the stored contents of level \<open>k\<close>.
\<close>

theorem laplacian_contents:
  "(reduceLaplacian nm p srcLevel destLevel c = (None, p') \<and>
    int (length (levels p)) = highestLevel p - lowestLevel p + 1 \<longrightarrow>
      (\<forall>k. srcLevel \<le> k \<and> k < destLevel \<longrightarrow>
         level_data p' k =
           expandImpl nm c (reduced nm c (level_data p srcLevel) (nat (k + 1 - srcLevel)))
             (convolve nm c (reduced nm c (level_data p srcLevel) (nat (k - srcLevel)))) -
           reduced nm c (level_data p srcLevel) (nat (k - srcLevel))) \<and>
      level_data p' destLevel =
        reduced nm c (level_data p srcLevel) (nat (destLevel - srcLevel))) \<and>
   (expandLaplacian nm q sl dl c = (None, q') \<and> lowestLevel q \<le> dl \<longrightarrow>
      level_data q' sl = level_data q sl \<and>
      (\<forall>k. dl \<le> k \<and> k < sl \<longrightarrow>
         level_data q' k = expandImpl nm c (level_data q' (k + 1)) 0 - level_data q k))"
  using reduceLaplacian_contents [of nm p srcLevel destLevel c p']
    expandLaplacian_contents [of nm q sl dl c q']
  by blast

theorem laplacian_contents_witness:
  "level_data
     \<lparr>levels =
        [\<lparr>array = \<lparr>shape = [4, 4], strides = [4, 16], itemsize = 4\<rparr>,
         cls = \<lparr>spatialDimensions = 2, channels = 1\<rparr>, data = (1::int)\<rparr>,
         \<lparr>array = \<lparr>shape = [2, 2], strides = [4, 8], itemsize = 4\<rparr>,
         cls = \<lparr>spatialDimensions = 2, channels = 1\<rparr>, data = 5\<rparr>],
      lowestLevel = 0, highestLevel = 1\<rparr> 0 = (5 + 1) - 5 \<and>
   level_data
     \<lparr>levels =
        [\<lparr>array = \<lparr>shape = [4, 4], strides = [4, 16], itemsize = 4\<rparr>,
         cls = \<lparr>spatialDimensions = 2, channels = 1\<rparr>, data = (1::int)\<rparr>,
         \<lparr>array = \<lparr>shape = [2, 2], strides = [4, 8], itemsize = 4\<rparr>,
         cls = \<lparr>spatialDimensions = 2, channels = 1\<rparr>, data = 5\<rparr>],
      lowestLevel = 0, highestLevel = 1\<rparr> 1 = 5 \<and>
   level_data
     \<lparr>levels =
        [\<lparr>array = \<lparr>shape = [4, 4], strides = [4, 16], itemsize = 4\<rparr>,
         cls = \<lparr>spatialDimensions = 2, channels = 1\<rparr>, data = (5::int)\<rparr>,
         \<lparr>array = \<lparr>shape = [2, 2], strides = [4, 8], itemsize = 4\<rparr>,
         cls = \<lparr>spatialDimensions = 2, channels = 1\<rparr>, data = 5\<rparr>],
      lowestLevel = 0, highestLevel = 1\<rparr> 0 = (5 + 1) - 1"
proof -
  let ?nm = "\<lparr>convolve = (\<lambda>c d. d), subsample = (\<lambda>d. d), expandImpl = (\<lambda>c s d. s + 1)\<rparr> :: (real, int) numerics"
  let ?p0 = "\<lparr>levels =
        [\<lparr>array = \<lparr>shape = [4, 4], strides = [4, 16], itemsize = 4\<rparr>,
         cls = \<lparr>spatialDimensions = 2, channels = 1\<rparr>, data = (5::int)\<rparr>,
         \<lparr>array = \<lparr>shape = [2, 2], strides = [4, 8], itemsize = 4\<rparr>,
         cls = \<lparr>spatialDimensions = 2, channels = 1\<rparr>, data = 0\<rparr>],
      lowestLevel = 0, highestLevel = 1\<rparr>"
  let ?p1 = "\<lparr>levels =
        [\<lparr>array = \<lparr>shape = [4, 4], strides = [4, 16], itemsize = 4\<rparr>,
         cls = \<lparr>spatialDimensions = 2, channels = 1\<rparr>, data = (1::int)\<rparr>,
         \<lparr>array = \<lparr>shape = [2, 2], strides = [4, 8], itemsize = 4\<rparr>,
         cls = \<lparr>spatialDimensions = 2, channels = 1\<rparr>, data = 5\<rparr>],
      lowestLevel = 0, highestLevel = 1\<rparr>"
  let ?p2 = "\<lparr>levels =
        [\<lparr>array = \<lparr>shape = [4, 4], strides = [4, 16], itemsize = 4\<rparr>,
         cls = \<lparr>spatialDimensions = 2, channels = 1\<rparr>, data = (5::int)\<rparr>,
         \<lparr>array = \<lparr>shape = [2, 2], strides = [4, 8], itemsize = 4\<rparr>,
         cls = \<lparr>spatialDimensions = 2, channels = 1\<rparr>, data = 5\<rparr>],
      lowestLevel = 0, highestLevel = 1\<rparr>"
  have n2: "new_from_shape \<lparr>spatialDimensions = 2, channels = 1\<rparr> 4 [4, 4] =
      Inr (\<lparr>array = \<lparr>shape = [4, 4], strides = [4, 16], itemsize = 4\<rparr>,
         cls = \<lparr>spatialDimensions = 2, channels = 1\<rparr>, data = (0::int)\<rparr>)"
    by (simp add: new_from_shape_def construct_defs upt_rec numeral_2_eq_2)
  have r: "reduceLaplacian ?nm ?p0 0 1 0.42 = (None, ?p1)"
    by (simp add: reduceLaplacian_def createLevel_def upto_rec1 reduceLaplacian_step_def
        pyramid_getitem_def pyramid_setitem_def py_getitem_def assign_contents_def
        subsampled_shape_def)
  have e: "expandLaplacian ?nm ?p1 1 0 0.42 = (None, ?p2)"
    by (simp add: expandLaplacian_def createLevel_def upto_rec1 expandLaplacian_step_def
        pyramid_getitem_def pyramid_setitem_def py_getitem_def assign_contents_def n2)
  from laplacian_contents [THEN conjunct1, of ?nm ?p0 0 1 "0.42" ?p1] r
  have a: "level_data ?p1 0 = (5 + 1) - 5" and b: "level_data ?p1 1 = 5"
    by (simp_all add: level_data_def)
  from laplacian_contents [THEN conjunct2, of ?nm ?p1 1 0 "0.42" ?p2] e
  have "level_data ?p2 0 = (5 + 1) - 1"
    by (simp add: level_data_def)
  with a b show ?thesis by simp
qed


section \<open>Errors of the pyramid\<close>

text \<open>
  C8. For every pyramid, \<^verbatim>\<open>reduce\<close> with a source level greater than the destination
  level raises \<^verbatim>\<open>RuntimeError\<close> and leaves the pyramid as it was: the levels, their
  contents, and the range of levels.
\<close>

theorem reduce_wrong_order:
  "destLevel < srcLevel \<Longrightarrow> reduce nm p srcLevel destLevel centerValue = (Some RuntimeError, p)"
  by (simp add: reduce_def)

theorem reduce_wrong_order_witness:
  "reduce \<lparr>convolve = (\<lambda>c d. d), subsample = (\<lambda>d. d), expandImpl = (\<lambda>c s d. s)\<rparr>
     \<lparr>levels =
        [\<lparr>array = \<lparr>shape = [4, 3], strides = [4, 16], itemsize = 4\<rparr>,
          cls = \<lparr>spatialDimensions = 2, channels = 1\<rparr>, data = (7::int)\<rparr>,
         \<lparr>array = \<lparr>shape = [2, 2], strides = [4, 8], itemsize = 4\<rparr>,
          cls = \<lparr>spatialDimensions = 2, channels = 1\<rparr>, data = 0\<rparr>,
         \<lparr>array = \<lparr>shape = [1, 1], strides = [4, 4], itemsize = 4\<rparr>,
          cls = \<lparr>spatialDimensions = 2, channels = 1\<rparr>, data = 0\<rparr>],
       lowestLevel = 0, highestLevel = 2\<rparr> 2 1 (0.42::real) =
   (Some RuntimeError,
     \<lparr>levels =
        [\<lparr>array = \<lparr>shape = [4, 3], strides = [4, 16], itemsize = 4\<rparr>,
          cls = \<lparr>spatialDimensions = 2, channels = 1\<rparr>, data = (7::int)\<rparr>,
         \<lparr>array = \<lparr>shape = [2, 2], strides = [4, 8], itemsize = 4\<rparr>,
          cls = \<lparr>spatialDimensions = 2, channels = 1\<rparr>, data = 0\<rparr>,
         \<lparr>array = \<lparr>shape = [1, 1], strides = [4, 4], itemsize = 4\<rparr>,
          cls = \<lparr>spatialDimensions = 2, channels = 1\<rparr>, data = 0\<rparr>],
       lowestLevel = 0, highestLevel = 2\<rparr>)"
  by (rule reduce_wrong_order) simp

text \<open>
  C10. Constructing a pyramid with a copy-destination level outside the closed interval
  from \<open>lowest\<close> to \<open>highest\<close> raises \<^verbatim>\<open>ValueError\<close>; no level has been created then,
  and no pyramid exists.
\<close>

theorem ImagePyramid_init_level_out_of_range:
  "copyImagedestLevel < lowest \<or> highest < copyImagedestLevel \<Longrightarrow>
   ImagePyramid_init img copyImagedestLevel lowest highest = Inl ValueError"
  by (auto simp: ImagePyramid_init_def)

theorem ImagePyramid_init_level_out_of_range_witness:
  "ImagePyramid_init
     \<lparr>array = \<lparr>shape = [4, 3], strides = [4, 16], itemsize = 4\<rparr>,
      cls = \<lparr>spatialDimensions = 2, channels = 1\<rparr>, data = (7::int)\<rparr> 5 0 3 = Inl ValueError \<and>
   ImagePyramid_init
     \<lparr>array = \<lparr>shape = [4, 3], strides = [4, 16], itemsize = 4\<rparr>,
      cls = \<lparr>spatialDimensions = 2, channels = 1\<rparr>, data = (7::int)\<rparr> (-1) 0 3 = Inl ValueError"
  using ImagePyramid_init_level_out_of_range [of 5 0 3
          "\<lparr>array = \<lparr>shape = [4, 3], strides = [4, 16], itemsize = 4\<rparr>,
            cls = \<lparr>spatialDimensions = 2, channels = 1\<rparr>, data = (7::int)\<rparr>"]
        ImagePyramid_init_level_out_of_range [of "-1" 0 3
          "\<lparr>array = \<lparr>shape = [4, 3], strides = [4, 16], itemsize = 4\<rparr>,
            cls = \<lparr>spatialDimensions = 2, channels = 1\<rparr>, data = (7::int)\<rparr>"]
  by simp


end
